theory Spec2Isabelle
  imports Complex_Main "HOL-Library.Word"
begin

section \<open>Values of the JavaScript runtime\<close>

text \<open>
  A JavaScript number is an IEEE 754 double. A finite double is modelled by the rational
  number it denotes (the two zeros are identified); the three special values are
  constructors of their own. Every comparison below is exact on doubles, so it is exact
  on this type.
\<close>

datatype jsnum = NaN | NegInf | Fin rat | PosInf

text \<open>The relational operator \<open>x > y\<close> on numbers: false as soon as one side is NaN.\<close>

fun js_gt :: "jsnum \<Rightarrow> jsnum \<Rightarrow> bool" where
  "js_gt NaN y = False"
| "js_gt x NaN = False"
| "js_gt PosInf y = (y \<noteq> PosInf)"
| "js_gt (Fin a) (Fin b) = (b < a)"
| "js_gt (Fin a) NegInf = True"
| "js_gt (Fin a) PosInf = False"
| "js_gt NegInf y = False"

text \<open>The global function \<open>isNaN\<close> on a number.\<close>

definition isNaN :: "jsnum \<Rightarrow> bool" where
  "isNaN x = (x = NaN)"

text \<open>
  The quotient \<open>a / b\<close> of two non-negative integers that are exactly representable:
  \<open>0 / 0\<close> is NaN and \<open>a / 0\<close> is Infinity. The runtime rounds a quotient that is
  not a double to the nearest one; the model keeps the exact rational.
\<close>

definition js_div :: "nat \<Rightarrow> nat \<Rightarrow> jsnum" where
  "js_div a b = (if b = 0 then (if a = 0 then NaN else PosInf) else Fin (of_nat a / of_nat b))"

text \<open>Reading an array element: \<open>xs[i]\<close> is \<open>undefined\<close> (here \<open>None\<close>) out of range.\<close>

definition element :: "'a list \<Rightarrow> int \<Rightarrow> 'a option" where
  "element xs i = (if 0 \<le> i \<and> i < int (length xs) then Some (xs ! nat i) else None)"

text \<open>\<open>xs.splice(i, 1)\<close> for \<open>i \<ge> 0\<close>: the list without its element at \<open>i\<close>, unchanged
  when there is none.\<close>

definition splice1 :: "nat \<Rightarrow> 'a list \<Rightarrow> 'a list" where
  "splice1 i xs = take i xs @ drop (Suc i) xs"

type_synonym bytes = "8 word list"

text \<open>Exceptions, by the constructor that makes them, with their message.\<close>

datatype error = Error string | TypeError string | RangeError string

fun message :: "error \<Rightarrow> string" where
  "message (Error m) = m"
| "message (TypeError m) = m"
| "message (RangeError m) = m"

text \<open>
  What the program uses of the platform without defining it: the conversion
  \<open>Number(str)\<close> of a string, and
  \<open>crypto.createHmac("sha3-256", key).update(data).digest("hex")\<close>.
\<close>

record platform =
  Number :: "string \<Rightarrow> jsnum"
  hmacSha3_256 :: "bytes \<Rightarrow> bytes \<Rightarrow> string"

section \<open>class Dice\<close>

text \<open>The one field, \<open>values\<close>, goes by the name of its getter.\<close>

record Dice =
  getValues :: "jsnum list"

definition numberOfFaces :: "Dice \<Rightarrow> nat" where
  "numberOfFaces d = length (getValues d)"

definition roll :: "Dice \<Rightarrow> int \<Rightarrow> jsnum option" where
  "roll d index = element (getValues d) index"

section \<open>class DiceConfigParser\<close>

text \<open>\<open>str.split(",")\<close>: the pieces between commas; the empty string has one empty piece.\<close>

fun split_comma :: "string \<Rightarrow> string list" where
  "split_comma [] = [[]]"
| "split_comma (c # cs) =
     (if c = CHR '','' then [] # split_comma cs
      else (case split_comma cs of [] \<Rightarrow> [[c]] | p # ps \<Rightarrow> (c # p) # ps))"

definition tooFewMessage :: string where
  "tooFewMessage = ''You must provide at least 3 dice configurations.''"

definition invalidMessage :: "string \<Rightarrow> string" where
  "invalidMessage str =
     ''Invalid dice configuration: \"'' @ str @ ''\". Expected comma-separated numbers.''"

text \<open>The callback of \<open>this.argv.map\<close>.\<close>

definition parseConfig :: "platform \<Rightarrow> string \<Rightarrow> error + jsnum list" where
  "parseConfig pf str =
     (let parts = map (Number pf) (split_comma str)
      in if length parts < 2 \<or> list_ex isNaN parts then Inl (Error (invalidMessage str))
         else Inr parts)"

text \<open>\<open>map\<close> with a callback that may throw: the first exception ends it.\<close>

fun map_throwing :: "('a \<Rightarrow> error + 'b) \<Rightarrow> 'a list \<Rightarrow> error + 'b list" where
  "map_throwing f [] = Inr []"
| "map_throwing f (x # xs) =
     (case f x of
        Inl e \<Rightarrow> Inl e
      | Inr y \<Rightarrow> (case map_throwing f xs of Inl e \<Rightarrow> Inl e | Inr ys \<Rightarrow> Inr (y # ys)))"

record DiceConfigParser =
  argv :: "string list"
  diceConfig :: "jsnum list list"

text \<open>The constructor; its argument is \<open>process.argv\<close>.\<close>

definition new_DiceConfigParser :: "platform \<Rightarrow> string list \<Rightarrow> error + DiceConfigParser" where
  "new_DiceConfigParser pf process_argv =
     (let args = drop 2 process_argv
      in if length args < 3 then Inl (Error tooFewMessage)
         else (case map_throwing (parseConfig pf) args of
                 Inl e \<Rightarrow> Inl e
               | Inr cfg \<Rightarrow> Inr \<lparr>argv = args, diceConfig = cfg\<rparr>))"

definition getRawDiceConfig :: "DiceConfigParser \<Rightarrow> jsnum list list" where
  "getRawDiceConfig parser = diceConfig parser"

definition getDiceConfig :: "DiceConfigParser \<Rightarrow> Dice list" where
  "getDiceConfig parser = map (\<lambda>cfg. \<lparr>getValues = cfg\<rparr>) (diceConfig parser)"

section \<open>class ProbabilityCalculator\<close>

definition computeWinProbability :: "jsnum list \<Rightarrow> jsnum list \<Rightarrow> jsnum" where
  "computeWinProbability userDice computerDice =
     (let wins = length (filter (\<lambda>b. b)
                   (concat (map (\<lambda>x. map (\<lambda>y. js_gt x y) computerDice) userDice)));
          total = length userDice * length computerDice
      in js_div wins total)"

section \<open>The fair number of a roll round\<close>

text \<open>
  \<open>(this.protocol.computerNumber + Number(userSelection)) % 6\<close> of
  \<open>DiceRoller.start\<close>; a \<open>null\<close> computer number counts as 0 in the sum.
\<close>

definition fairNumber :: "nat option \<Rightarrow> nat \<Rightarrow> nat" where
  "fairNumber computerNumber userSelection =
     ((case computerNumber of None \<Rightarrow> 0 | Some c \<Rightarrow> c) + userSelection) mod 6"

section \<open>Effects: randomness, the terminal, exceptions, the process\<close>

text \<open>
  The world the program runs in. \<open>randomInts\<close> is the entropy behind the successive
  calls of \<open>crypto.randomInt\<close> and \<open>randomKeys\<close> the results of the successive calls
  of \<open>crypto.randomBytes(32)\<close>; the two counters say how many calls were made.
  \<open>stdin\<close> holds the lines the user is still going to type.
\<close>

record world =
  randomInts :: "nat \<Rightarrow> nat"
  intCalls :: nat
  randomKeys :: "nat \<Rightarrow> bytes"
  keyCalls :: nat
  stdin :: "string list"

text \<open>
  What the terminal shows and reads, in order. An event keeps the values a line is made
  of, not its formatting; \<open>Question prompt line\<close> is one call of
  \<open>readline.question\<close> and the line it returned.
\<close>

datatype event =
    Narrated string
  | MenuShown string nat
  | Question string string
  | Rejected
  | TableShown "jsnum list list"
  | HmacShown string
  | SelectionShown "nat option"
  | KeyShown bytes
  | DiceShown string "Dice option"
  | FairShown "nat option" nat nat
  | RollShown string "jsnum option"
  | OutcomeShown string "jsnum option" "jsnum option"
  | ErrorShown string

text \<open>
  How a call ends: it returns, it throws, it ends the process with an exit status, or it
  waits for a line of input that never comes. Nothing in the program catches an
  exception after the configuration is parsed, so the state of an object whose method
  threw is not observed again and the model does not keep it.
\<close>

datatype 'a outcome = Returned 'a | Thrown error | Exited nat | Blocked

type_synonym 'a io = "world \<Rightarrow> 'a outcome \<times> event list \<times> world"

definition return :: "'a \<Rightarrow> 'a io" where
  "return x w = (Returned x, [], w)"

definition throw :: "error \<Rightarrow> 'a io" where
  "throw e w = (Thrown e, [], w)"

definition exit :: "nat \<Rightarrow> 'a io" where
  "exit code w = (Exited code, [], w)"

definition console_log :: "event \<Rightarrow> unit io" where
  "console_log e w = (Returned (), [e], w)"

text \<open>Sequencing of two statements: the second runs only when the first returns.\<close>

definition andThen :: "'a io \<Rightarrow> ('a \<Rightarrow> 'b io) \<Rightarrow> 'b io" where
  "andThen m f w =
     (case m w of
        (Returned x, es, w1) \<Rightarrow> (case f x w1 of (r, es', w2) \<Rightarrow> (r, es @ es', w2))
      | (Thrown e, es, w1) \<Rightarrow> (Thrown e, es, w1)
      | (Exited code, es, w1) \<Rightarrow> (Exited code, es, w1)
      | (Blocked, es, w1) \<Rightarrow> (Blocked, es, w1))"

section \<open>Strings\<close>

text \<open>
  Change of case, on the letters of ASCII: the strings the program applies it to (a
  hexadecimal digest, and \<open>My\<close> or \<open>Your\<close>) hold no other letters.
\<close>

definition toUpperChar :: "char \<Rightarrow> char" where
  "toUpperChar c =
     (let n = (of_char c :: nat) in if 97 \<le> n \<and> n \<le> 122 then char_of (n - 32) else c)"

definition toLowerChar :: "char \<Rightarrow> char" where
  "toLowerChar c =
     (let n = (of_char c :: nat) in if 65 \<le> n \<and> n \<le> 90 then char_of (n + 32) else c)"

definition toUpperCase :: "string \<Rightarrow> string" where
  "toUpperCase s = map toUpperChar s"

definition toLowerCase :: "string \<Rightarrow> string" where
  "toLowerCase s = map toLowerChar s"

text \<open>
  A character is a code unit below 256. \<open>trim\<close> strips the white space and the
  line terminators of the language; below 256 these are the six of ASCII and the
  no-break space.
\<close>

definition isWhiteSpace :: "char \<Rightarrow> bool" where
  "isWhiteSpace c = ((of_char c :: nat) \<in> {9, 10, 11, 12, 13, 32, 160})"

definition trim :: "string \<Rightarrow> string" where
  "trim s = rev (dropWhile isWhiteSpace (rev (dropWhile isWhiteSpace s)))"

text \<open>\<open>index.toString()\<close> of an array index: its decimal digits.\<close>

definition digitChar :: "nat \<Rightarrow> char" where
  "digitChar d = char_of (48 + d)"

fun toString :: "nat \<Rightarrow> string" where
  "toString n = (if n < 10 then [digitChar n] else toString (n div 10) @ [digitChar (n mod 10)])"

declare toString.simps [simp del]

text \<open>\<open>Number(answer)\<close> of a string of decimal digits: the number they spell.\<close>

definition digitValue :: "char \<Rightarrow> nat" where
  "digitValue c = of_char c - 48"

definition decimalNumber :: "string \<Rightarrow> nat" where
  "decimalNumber s = foldl (\<lambda>a c. 10 * a + digitValue c) 0 s"

section \<open>The texts the program prints or throws\<close>

definition maxOutOfRange :: string where
  "maxOutOfRange = ''The value of \"max\" is out of range.''"

definition nullHasNoToString :: string where
  "nullHasNoToString = ''Cannot read properties of null (reading 'toString')''"

definition nullHasNoToUpperCase :: string where
  "nullHasNoToUpperCase = ''Cannot read properties of null (reading 'toUpperCase')''"

definition undefinedHasNoRoll :: string where
  "undefinedHasNoRoll = ''Cannot read properties of undefined (reading 'roll')''"

definition keyMustBeGiven :: string where
  "keyMustBeGiven = ''The \"key\" argument must be of type string or an instance of Buffer.''"

definition firstMoveIntro :: string where
  "firstMoveIntro =
     ''Let's determine who makes the first move.'' @ [CHR 0x0A]
       @ ''I selected a random value in the range 0..1''"

definition rollIntro :: "string \<Rightarrow> string" where
  "rollIntro who =
     ''It's time for '' @ toLowerCase who @ '' roll.'' @ [CHR 0x0A]
       @ ''I selected a random value in the range 0..5''"

definition gameIntro :: string where
  "gameIntro =
     ''Let's start the game. I will start.'' @ [CHR 0x0A]
       @ ''[It doesn't matter who goes first since we have different dice]''"

section \<open>class RandomGenerator\<close>

text \<open>
  \<open>crypto.randomInt(0, range)\<close> returns an integer \<open>n\<close> with \<open>0 \<le> n < range\<close>; it
  throws a RangeError unless \<open>0 < range < 2^48\<close> (the text of its message is
  shortened here). The value returned is the entropy of the call reduced modulo
  \<open>range\<close>, so that each value below \<open>range\<close> comes from some entropy.
\<close>

definition rand :: "nat \<Rightarrow> nat io" where
  "rand range' w =
     (if range' < 1 \<or> 2 ^ 48 \<le> range'
      then (Thrown (RangeError maxOutOfRange), [], w)
      else (Returned (randomInts w (intCalls w) mod range'), [],
            w\<lparr>intCalls := Suc (intCalls w)\<rparr>))"

text \<open>\<open>RandomGenerator.key()\<close>.\<close>

definition randomKey :: "bytes io" where
  "randomKey w = (Returned (randomKeys w (keyCalls w)), [], w\<lparr>keyCalls := Suc (keyCalls w)\<rparr>)"

text \<open>\<open>printKey(key)\<close> calls a method of \<open>key\<close>, so it throws on \<open>null\<close>.\<close>

definition printKey :: "bytes option \<Rightarrow> unit io" where
  "printKey k =
     (case k of
        None \<Rightarrow> throw (TypeError nullHasNoToString)
      | Some bs \<Rightarrow> console_log (KeyShown bs))"

section \<open>class HmacCalculator\<close>

text \<open>
  \<open>Buffer.from([num])\<close> is the one byte \<open>num & 255\<close> (0 for \<open>null\<close>);
  \<open>createHmac\<close> throws on a \<open>null\<close> key.
\<close>

definition calcHmac :: "platform \<Rightarrow> nat option \<Rightarrow> bytes option \<Rightarrow> error + string" where
  "calcHmac pf num k =
     (case k of
        None \<Rightarrow> Inl (TypeError keyMustBeGiven)
      | Some bs \<Rightarrow> Inr (hmacSha3_256 pf bs [of_nat (case num of None \<Rightarrow> 0 | Some n \<Rightarrow> n)]))"

definition printHmac :: "string option \<Rightarrow> unit io" where
  "printHmac h =
     (case h of
        None \<Rightarrow> throw (TypeError nullHasNoToUpperCase)
      | Some s \<Rightarrow> console_log (HmacShown (toUpperCase s)))"

section \<open>class TableGenerator\<close>

text \<open>
  \<open>generate(diceList)\<close>: the table of the win probabilities of every die against every
  die. An array is never falsy, so the guard at its head does not throw.
\<close>

definition probabilityTable :: "jsnum list list \<Rightarrow> jsnum list list" where
  "probabilityTable diceList =
     map (\<lambda>di. map (\<lambda>dj. computeWinProbability di dj) diceList) diceList"

definition generate :: "jsnum list list \<Rightarrow> unit io" where
  "generate diceList = console_log (TableShown (probabilityTable diceList))"

section \<open>class Menu\<close>

text \<open>
  The loop of \<open>readInput\<close>, over the lines to come: a line that is not an option is
  refused, \<open>?\<close> shows the table (what \<open>TableGenerator.generate\<close> prints, which
  does not throw) and asks again, \<open>X\<close> ends the process with status 1, and an index
  is returned as a number. With no line left the loop waits for ever.
\<close>

fun readInput_loop ::
  "string \<Rightarrow> string list \<Rightarrow> jsnum list list \<Rightarrow> string list \<Rightarrow> nat outcome \<times> event list \<times> string list"
where
  "readInput_loop prompt options diceList [] = (Blocked, [], [])"
| "readInput_loop prompt options diceList (line # rest) =
     (let answer = trim line
      in if answer \<notin> set options then
           (case readInput_loop prompt options diceList rest of
              (r, es, rest') \<Rightarrow> (r, Question prompt line # Rejected # es, rest'))
         else if answer = ''?'' then
           (case readInput_loop prompt options diceList rest of
              (r, es, rest') \<Rightarrow>
                (r, Question prompt line # TableShown (probabilityTable diceList) # es, rest'))
         else if answer = ''X'' then (Exited 1, [Question prompt line], rest)
         else (Returned (decimalNumber answer), [Question prompt line], rest))"

definition readInput :: "string \<Rightarrow> string list \<Rightarrow> jsnum list list \<Rightarrow> nat io" where
  "readInput prompt options diceList w =
     (case readInput_loop prompt options diceList (stdin w) of
        (r, es, rest) \<Rightarrow> (r, es, w\<lparr>stdin := rest\<rparr>))"

text \<open>
  \<open>promptSelection(message, options, diceList)\<close> uses of \<open>options\<close> its length and,
  to print it, its entries; the model is given the length.
\<close>

definition promptSelection :: "string \<Rightarrow> nat \<Rightarrow> jsnum list list \<Rightarrow> nat io" where
  "promptSelection msg n diceList =
     andThen (console_log (MenuShown msg n)) (\<lambda>_.
       readInput ''Your selection: '' (map toString [0..<n] @ [''X'', ''?'']) diceList)"

section \<open>class Protocol\<close>

text \<open>The field \<open>range\<close> is \<open>range_of\<close> here; a field that is \<open>null\<close> is \<open>None\<close>.\<close>

record Protocol =
  range_of :: nat
  key :: "bytes option"
  computerNum :: "nat option"
  hmac :: "string option"
  userFirst :: bool

definition new_Protocol :: "nat \<Rightarrow> Protocol" where
  "new_Protocol r = \<lparr>range_of = r, key = None, computerNum = None, hmac = None, userFirst = False\<rparr>"

definition generateKey :: "Protocol \<Rightarrow> Protocol io" where
  "generateKey p = andThen randomKey (\<lambda>k. return (p\<lparr>key := Some k\<rparr>))"

definition generateRandomIndex :: "Protocol \<Rightarrow> nat \<Rightarrow> Protocol io" where
  "generateRandomIndex p max' = andThen (rand max') (\<lambda>n. return (p\<lparr>computerNum := Some n\<rparr>))"

definition computeHmac :: "platform \<Rightarrow> Protocol \<Rightarrow> Protocol io" where
  "computeHmac pf p =
     (case calcHmac pf (computerNum p) (key p) of
        Inl e \<Rightarrow> throw e
      | Inr h \<Rightarrow> return (p\<lparr>hmac := Some h\<rparr>))"

definition Protocol_start :: "platform \<Rightarrow> Protocol \<Rightarrow> Protocol io" where
  "Protocol_start pf p =
     andThen (generateKey p) (\<lambda>p1.
     andThen (generateRandomIndex p1 (range_of p1)) (\<lambda>p2.
     andThen (computeHmac pf p2) (\<lambda>p3.
     andThen (printHmac (hmac p3)) (\<lambda>_. return p3))))"

definition Protocol_reveal :: "Protocol \<Rightarrow> unit io" where
  "Protocol_reveal p =
     andThen (console_log (SelectionShown (computerNum p))) (\<lambda>_. printKey (key p))"

section \<open>class DiceSelection\<close>

record DiceSelection =
  dice :: "Dice list"
  protocol :: Protocol
  computerDice :: "Dice option"
  userDice :: "Dice option"

definition new_DiceSelection :: "Dice list \<Rightarrow> Protocol \<Rightarrow> DiceSelection" where
  "new_DiceSelection ds p = \<lparr>dice = ds, protocol = p, computerDice = None, userDice = None\<rparr>"

text \<open>
  The two branches of \<open>if (this.protocol.isUserFirst)\<close> in \<open>start\<close>. In the first the
  user chooses among all dice and the computer draws among the others; in the second the
  computer draws first. Each removes from \<open>this.dice\<close> the die that was taken first.
\<close>

definition userMovesFirst :: "DiceSelection \<Rightarrow> jsnum list list \<Rightarrow> DiceSelection io" where
  "userMovesFirst sel diceList =
     andThen (promptSelection ''You make the first move. Choose your dice:'' (length (dice sel)) diceList) (\<lambda>index.
     let userD = element (dice sel) (int index) in
     andThen (console_log (DiceShown ''You chose the'' userD)) (\<lambda>_.
     let dice1 = splice1 index (dice sel) in
     andThen (rand (length dice1)) (\<lambda>r.
     let computerD = element dice1 (int r) in
     andThen (console_log (DiceShown ''I choose the'' computerD)) (\<lambda>_.
     return (sel\<lparr>dice := dice1, computerDice := computerD, userDice := userD\<rparr>)))))"

definition computerMovesFirst :: "DiceSelection \<Rightarrow> jsnum list list \<Rightarrow> DiceSelection io" where
  "computerMovesFirst sel diceList =
     andThen (rand (length (dice sel))) (\<lambda>index.
     let computerD = element (dice sel) (int index) in
     andThen (console_log (DiceShown ''I make the first move and choose the'' computerD)) (\<lambda>_.
     let dice1 = splice1 index (dice sel) in
     andThen (promptSelection ''Choose your dice:'' (length dice1) diceList) (\<lambda>choice.
     let userD = element dice1 (int choice) in
     andThen (console_log (DiceShown ''You chose the'' userD)) (\<lambda>_.
     return (sel\<lparr>dice := dice1, computerDice := computerD, userDice := userD\<rparr>)))))"

text \<open>
  \<open>start(diceList)\<close>. The loop around the guess runs once (it ends with \<open>break\<close>).
  The protocol object is shared with the selection, so what \<open>start\<close> and the setter
  \<open>isUserFirst\<close> write to it is written to \<open>this.protocol\<close>.
\<close>

definition DiceSelection_start :: "platform \<Rightarrow> DiceSelection \<Rightarrow> jsnum list list \<Rightarrow> DiceSelection io" where
  "DiceSelection_start pf sel diceList =
     andThen (console_log (Narrated firstMoveIntro)) (\<lambda>_.
     andThen (Protocol_start pf (protocol sel)) (\<lambda>p1.
     andThen (promptSelection ''Try to guess my selection.'' 2 diceList) (\<lambda>userGuess.
     let p2 = (if Some userGuess = computerNum p1 then p1\<lparr>userFirst := True\<rparr> else p1) in
     andThen (Protocol_reveal p2) (\<lambda>_.
     if userFirst p2 then userMovesFirst (sel\<lparr>protocol := p2\<rparr>) diceList
     else computerMovesFirst (sel\<lparr>protocol := p2\<rparr>) diceList))))"

section \<open>class DiceRoller\<close>

text \<open>The fields \<open>protocol\<close>, \<open>userDice\<close> and \<open>computerDice\<close> carry the name of the
  class, to tell them from those of the dice selection.\<close>

record DiceRoller =
  whose :: string
  rollerProtocol :: Protocol
  rollerUserDice :: "Dice option"
  rollerComputerDice :: "Dice option"

definition isUserDice :: "string \<Rightarrow> bool" where
  "isUserDice who = (if who = ''My'' then False else True)"

text \<open>
  \<open>user > computer\<close> and \<open>user === computer\<close> on the results of two rolls, each a
  number or \<open>undefined\<close>: \<open>undefined\<close> is greater than nothing and equal to itself only.
\<close>

fun roll_gt :: "jsnum option \<Rightarrow> jsnum option \<Rightarrow> bool" where
  "roll_gt (Some a) (Some b) = js_gt a b"
| "roll_gt a b = False"

fun roll_eq :: "jsnum option \<Rightarrow> jsnum option \<Rightarrow> bool" where
  "roll_eq None None = True"
| "roll_eq (Some a) (Some b) = (a = b \<and> a \<noteq> NaN)"
| "roll_eq a b = False"

definition result :: "jsnum option \<Rightarrow> jsnum option \<Rightarrow> unit io" where
  "result user computer =
     (if roll_gt user computer then console_log (OutcomeShown ''You win'' user computer)
      else if roll_eq user computer then console_log (OutcomeShown ''It's draw'' user computer)
      else console_log (OutcomeShown ''I win'' user computer))"

definition DiceRoller_start :: "platform \<Rightarrow> DiceRoller \<Rightarrow> jsnum list list \<Rightarrow> jsnum option io" where
  "DiceRoller_start pf roller diceList =
     andThen (console_log (Narrated (rollIntro (whose roller)))) (\<lambda>_.
     andThen (Protocol_start pf (rollerProtocol roller)) (\<lambda>p1.
     andThen (promptSelection ''Add your number modulo 6.'' 6 diceList) (\<lambda>userSelection.
     andThen (Protocol_reveal p1) (\<lambda>_.
     let res = fairNumber (computerNum p1) userSelection in
     andThen (console_log (FairShown (computerNum p1) userSelection res)) (\<lambda>_.
     (case (if isUserDice (whose roller) then rollerUserDice roller else rollerComputerDice roller) of
        None \<Rightarrow> throw (TypeError undefinedHasNoRoll)
      | Some d \<Rightarrow>
          let rolled = roll d (int res) in
          andThen (console_log (RollShown (whose roller) rolled)) (\<lambda>_. return rolled)))))))"

section \<open>main\<close>

text \<open>
  The result is how the process ends: \<open>Exited 1\<close> from \<open>process.exit(1)\<close>,
  \<open>Returned ()\<close> when \<open>main\<close> runs to its end, \<open>Thrown\<close> for an exception nobody
  catches.
\<close>

definition main :: "platform \<Rightarrow> string list \<Rightarrow> unit io" where
  "main pf process_argv =
     (case new_DiceConfigParser pf process_argv of
        Inl e \<Rightarrow> andThen (console_log (ErrorShown (message e))) (\<lambda>_. exit 1)
      | Inr parser \<Rightarrow>
          andThen (DiceSelection_start pf
                     (new_DiceSelection (getDiceConfig parser) (new_Protocol 2))
                     (getRawDiceConfig parser)) (\<lambda>selection.
          andThen (console_log (Narrated gameIntro)) (\<lambda>_.
          andThen (DiceRoller_start pf
                     \<lparr>whose = ''My'', rollerProtocol = new_Protocol 5,
                      rollerUserDice = userDice selection,
                      rollerComputerDice = computerDice selection\<rparr>
                     (getRawDiceConfig parser)) (\<lambda>computerResult.
          andThen (DiceRoller_start pf
                     \<lparr>whose = ''Your'', rollerProtocol = new_Protocol 5,
                      rollerUserDice = userDice selection,
                      rollerComputerDice = computerDice selection\<rparr>
                     (getRawDiceConfig parser)) (\<lambda>userResult.
          result userResult computerResult)))))"

section \<open>Observations used in the statements\<close>

text \<open>
  Modelled from the spec: the operation \<open>verify(secretNumber, key, tag)\<close> of the
  Commitment component, which the source does not define (it prints the tag, the number
  and the key, and leaves the comparison to the reader). In the spec's words it
  "recomputes the tag and compares for exact equality"; the tag is recomputed by the
  source's \<open>calcHmac\<close>.
\<close>

definition verify :: "platform \<Rightarrow> nat \<Rightarrow> bytes \<Rightarrow> string \<Rightarrow> bool" where
  "verify pf secretNumber k tag = (calcHmac pf (Some secretNumber) (Some k) = Inr tag)"

text \<open>
  The part of a trace that matters for the order of disclosure: the tag shown, every line
  read from the counterpart, the number shown and the key shown.
\<close>

fun disclosing :: "event \<Rightarrow> bool" where
  "disclosing (HmacShown t) = True"
| "disclosing (Question p l) = True"
| "disclosing (SelectionShown c) = True"
| "disclosing (KeyShown k) = True"
| "disclosing e = False"

definition disclosure :: "event list \<Rightarrow> event list" where
  "disclosure es = filter disclosing es"

text \<open>
  The tag as \<open>printHmac\<close> shows it for the number \<open>c\<close> and the key \<open>k\<close>, and the
  order of disclosure of a complete round: the tag of \<open>c\<close> and \<open>k\<close>, the lines read
  from the user (the last one is the accepted answer), then \<open>c\<close>, then \<open>k\<close>.
\<close>

definition shownTag :: "platform \<Rightarrow> nat \<Rightarrow> bytes \<Rightarrow> string" where
  "shownTag pf c k = toUpperCase (hmacSha3_256 pf k [of_nat c])"

definition roundDisclosure :: "platform \<Rightarrow> nat \<Rightarrow> bytes \<Rightarrow> string list \<Rightarrow> event list" where
  "roundDisclosure pf c k used =
     HmacShown (shownTag pf c k) # map (Question ''Your selection: '') used
       @ [SelectionShown (Some c), KeyShown k]"

text \<open>
  A computation that discloses nothing: all it adds to the order of disclosure are the
  lines it reads from the user, and it shows no tag, number or key.
\<close>

definition readsOnly :: "'a io \<Rightarrow> bool" where
  "readsOnly m =
     (\<forall>w. case m w of
             (r, es, w') \<Rightarrow>
               \<exists>used. stdin w = used @ stdin w'
                      \<and> disclosure es = map (Question ''Your selection: '') used)"

section \<open>A platform and a world to run examples in\<close>

text \<open>
  \<open>decimalLiteral\<close> agrees with \<open>Number\<close> on the strings it accepts: an optional
  sign, digits, and an optional fraction, when the decimal value is a double (as 1.5 and
  -2.5 are); the empty string is 0. It answers NaN to everything else, which \<open>Number\<close>
  does not (exponents, hexadecimal, \<open>Infinity\<close>), so it only serves in examples.
\<close>

definition isDigit :: "char \<Rightarrow> bool" where
  "isDigit c = (48 \<le> (of_char c :: nat) \<and> (of_char c :: nat) \<le> 57)"

definition unsignedDecimal :: "string \<Rightarrow> rat option" where
  "unsignedDecimal s =
     (let whole = takeWhile isDigit s; rest = dropWhile isDigit s
      in if rest = [] then (if whole = [] then None else Some (of_nat (decimalNumber whole)))
         else if hd rest = CHR ''.'' \<and> list_all isDigit (tl rest) \<and> (whole \<noteq> [] \<or> tl rest \<noteq> [])
         then Some (of_nat (decimalNumber whole)
                    + of_nat (decimalNumber (tl rest)) / 10 ^ length (tl rest))
         else None)"

definition decimalLiteral :: "string \<Rightarrow> jsnum" where
  "decimalLiteral s =
     (case trim s of
        [] \<Rightarrow> Fin 0
      | c # cs \<Rightarrow>
          if c = CHR ''-'' then (case unsignedDecimal cs of None \<Rightarrow> NaN | Some q \<Rightarrow> Fin (- q))
          else if c = CHR ''+'' then (case unsignedDecimal cs of None \<Rightarrow> NaN | Some q \<Rightarrow> Fin q)
          else (case unsignedDecimal (c # cs) of None \<Rightarrow> NaN | Some q \<Rightarrow> Fin q))"

text \<open>A stand-in for the keyed hash, of no cryptographic value: the hexadecimal digits of
  the data followed by those of the key.\<close>

definition hexDigit :: "nat \<Rightarrow> char" where
  "hexDigit d = (if d < 10 then char_of (48 + d) else char_of (87 + d))"

definition hexByte :: "8 word \<Rightarrow> string" where
  "hexByte b = [hexDigit (unat b div 16), hexDigit (unat b mod 16)]"

definition examplePlatform :: platform where
  "examplePlatform =
     \<lparr>Number = decimalLiteral, hmacSha3_256 = (\<lambda>k d. concat (map hexByte (d @ k)))\<rparr>"

text \<open>The user types \<open>lines\<close>; the \<open>i\<close>-th random integer comes from the entropy
  \<open>i\<close>, and the \<open>i\<close>-th key is the byte \<open>161 + i\<close>, 32 times.\<close>

definition exampleWorld :: "string list \<Rightarrow> world" where
  "exampleWorld lines =
     \<lparr>randomInts = (\<lambda>i. i), intCalls = 0, randomKeys = (\<lambda>i. replicate 32 (of_nat (161 + i))),
      keyCalls = 0, stdin = lines\<rparr>"

definition exampleDice :: "Dice list" where
  "exampleDice =
     [\<lparr>getValues = [Fin 2, Fin 2, Fin 4, Fin 4, Fin 9, Fin 9]\<rparr>,
      \<lparr>getValues = [Fin 6, Fin 8, Fin 1, Fin 1, Fin 8, Fin 6]\<rparr>,
      \<lparr>getValues = [Fin 7, Fin 5, Fin 3, Fin 7, Fin 5, Fin 3]\<rparr>]"

section \<open>Sequencing\<close>

lemma andThen_Returned:
  "m w = (Returned x, es, w1) \<Longrightarrow> andThen m f w = (case f x w1 of (r, es', w2) \<Rightarrow> (r, es @ es', w2))"
  by (simp add: andThen_def)

lemma andThen_Thrown: "m w = (Thrown e, es, w1) \<Longrightarrow> andThen m f w = (Thrown e, es, w1)"
  by (simp add: andThen_def)

lemma andThen_Exited: "m w = (Exited c, es, w1) \<Longrightarrow> andThen m f w = (Exited c, es, w1)"
  by (simp add: andThen_def)

lemma andThen_Blocked: "m w = (Blocked, es, w1) \<Longrightarrow> andThen m f w = (Blocked, es, w1)"
  by (simp add: andThen_def)

lemma andThen_console_log:
  "andThen (console_log e) f w = (case f () w of (r, es, w2) \<Rightarrow> (r, e # es, w2))"
  by (simp add: andThen_def console_log_def)

lemma andThen_return: "andThen (return x) f w = f x w"
  by (simp add: andThen_def return_def split: prod.splits)

lemma andThen_throw: "andThen (throw e) f w = (Thrown e, [], w)"
  by (simp add: andThen_def throw_def)

lemma andThen_event:
  assumes "andThen m f w = (r, es, w')" "e \<in> set es"
  shows "(\<exists>r1 es1 w1. m w = (r1, es1, w1) \<and> e \<in> set es1)
       \<or> (\<exists>x es1 w1 r2 es2 w2. m w = (Returned x, es1, w1) \<and> f x w1 = (r2, es2, w2) \<and> e \<in> set es2)"
proof -
  obtain r1 es1 w1 where m1: "m w = (r1, es1, w1)"
    by (metis prod_cases3)
  show ?thesis
  proof (cases r1)
    case (Returned x)
    obtain r2 es2 w2 where f2: "f x w1 = (r2, es2, w2)"
      by (metis prod_cases3)
    with assms m1 Returned have "e \<in> set es1 \<or> e \<in> set es2"
      by (auto simp: andThen_def)
    with m1 Returned f2 show ?thesis by blast
  next
    case (Thrown x)
    with assms m1 show ?thesis by (auto simp: andThen_def)
  next
    case (Exited x)
    with assms m1 show ?thesis by (auto simp: andThen_def)
  next
    case Blocked
    with assms m1 show ?thesis by (auto simp: andThen_def)
  qed
qed

section \<open>Digits and white space\<close>

lemma digitValue_digitChar: "d < 10 \<Longrightarrow> digitValue (digitChar d) = d"
  by (simp add: digitValue_def digitChar_def of_char_of)

lemma decimalNumber_snoc: "decimalNumber (s @ [c]) = 10 * decimalNumber s + digitValue c"
  by (simp add: decimalNumber_def)

lemma decimalNumber_single: "decimalNumber [c] = digitValue c"
  by (simp add: decimalNumber_def)

lemma decimalNumber_toString: "decimalNumber (toString n) = n"
proof (induction n rule: toString.induct)
  case (1 n)
  show ?case
  proof (cases "n < 10")
    case True
    then show ?thesis
      by (subst toString.simps) (simp add: decimalNumber_single digitValue_digitChar)
  next
    case False
    then have "decimalNumber (toString (n div 10)) = n div 10"
      using "1.IH" by simp
    with False show ?thesis
      by (subst toString.simps) (simp add: decimalNumber_snoc digitValue_digitChar)
  qed
qed

lemma toString_digits: "set (toString n) \<subseteq> digitChar ` {..<10}"
proof (induction n rule: toString.induct)
  case (1 n)
  show ?case
  proof (cases "n < 10")
    case True
    then show ?thesis by (subst toString.simps) simp
  next
    case False
    with "1.IH" have "set (toString (n div 10)) \<subseteq> digitChar ` {..<10}" by simp
    moreover have "n mod 10 < 10" by simp
    ultimately show ?thesis
      using False by (subst toString.simps) auto
  qed
qed

lemma toString_not_empty: "toString n \<noteq> []"
  by (subst toString.simps) simp

lemma toString_digit: "n < 10 \<Longrightarrow> toString n = [digitChar n]"
  by (subst toString.simps) simp

lemma digitChar_neq: "d < 10 \<Longrightarrow> digitChar d \<noteq> CHR ''X'' \<and> digitChar d \<noteq> CHR ''?''"
proof -
  assume "d < 10"
  then have "digitValue (digitChar d) = d" by (rule digitValue_digitChar)
  moreover have "digitValue CHR ''X'' = 40" "digitValue CHR ''?'' = 15"
    by (simp_all add: digitValue_def)
  ultimately show ?thesis using \<open>d < 10\<close> by auto
qed

lemma toString_not_command: "toString n \<noteq> ''X'' \<and> toString n \<noteq> ''?''"
proof -
  have "CHR ''X'' \<notin> digitChar ` {..<10}" "CHR ''?'' \<notin> digitChar ` {..<10}"
    using digitChar_neq by (metis imageE lessThan_iff)+
  with toString_digits [of n] show ?thesis
    by auto
qed

lemma digitChar_eqI: "(of_char c :: nat) = 48 + d \<Longrightarrow> d < 10 \<Longrightarrow> digitChar d = c"
proof -
  assume a: "(of_char c :: nat) = 48 + d" "d < 10"
  then have "(of_char (digitChar d) :: nat) = of_char c"
    by (simp add: digitChar_def of_char_of)
  then show ?thesis by (simp only: of_char_eq_iff)
qed

lemma digitChar_literals:
  "digitChar 0 = CHR ''0''" "digitChar 1 = CHR ''1''" "digitChar 2 = CHR ''2''"
  "digitChar 3 = CHR ''3''" "digitChar 4 = CHR ''4''" "digitChar 5 = CHR ''5''"
  by (rule digitChar_eqI; simp)+

lemma digit_literals:
  "''0'' = [digitChar 0]" "''1'' = [digitChar 1]" "''2'' = [digitChar 2]" "''3'' = [digitChar 3]"
  "''4'' = [digitChar 4]" "''5'' = [digitChar 5]"
  by (simp_all only: digitChar_literals)

lemma digit_not_space: "d < 10 \<Longrightarrow> \<not> isWhiteSpace (digitChar d)"
  by (simp add: isWhiteSpace_def digitChar_def of_char_of)

lemma trim_unspaced:
  assumes "s \<noteq> []" "\<forall>c \<in> set s. \<not> isWhiteSpace c"
  shows "trim s = s"
proof -
  from assms have "\<not> isWhiteSpace (hd s)" by simp
  with assms(1) have front: "dropWhile isWhiteSpace s = s"
    by (cases s) simp_all
  from assms have "rev s \<noteq> []" "\<not> isWhiteSpace (hd (rev s))"
    by (simp_all add: hd_rev)
  then have "dropWhile isWhiteSpace (rev s) = rev s"
    by (cases "rev s") simp_all
  with front show ?thesis
    by (simp add: trim_def)
qed

lemma trim_digit: "d < 10 \<Longrightarrow> trim [digitChar d] = [digitChar d]"
  by (simp add: trim_def isWhiteSpace_def digitChar_def of_char_of)

lemma trim_toString: "trim (toString n) = toString n"
proof (rule trim_unspaced)
  show "toString n \<noteq> []" by (rule toString_not_empty)
  show "\<forall>c \<in> set (toString n). \<not> isWhiteSpace c"
    using toString_digits [of n] digit_not_space by auto
qed

section \<open>The random generator and the protocol object\<close>

lemma rand_spec:
  assumes "rand n w = (r, es, w')"
  shows "es = [] \<and> stdin w' = stdin w \<and> (\<forall>x. r = Returned x \<longrightarrow> x < n)
         \<and> (\<forall>c. r \<noteq> Exited c) \<and> r \<noteq> Blocked"
  using assms by (auto simp: rand_def split: if_splits)

lemma Protocol_start_bad:
  "range_of p < 1 \<or> 2 ^ 48 \<le> range_of p \<Longrightarrow>
   Protocol_start pf p w = (Thrown (RangeError maxOutOfRange), [], w\<lparr>keyCalls := Suc (keyCalls w)\<rparr>)"
  by (auto simp add: Protocol_start_def generateKey_def generateRandomIndex_def
      randomKey_def rand_def andThen_def return_def)

lemma Protocol_start_ok:
  "1 \<le> range_of p \<Longrightarrow> range_of p < 2 ^ 48 \<Longrightarrow>
   Protocol_start pf p w =
     (Returned (p\<lparr>key := Some (randomKeys w (keyCalls w)),
                  computerNum := Some (randomInts w (intCalls w) mod range_of p),
                  hmac := Some (hmacSha3_256 pf (randomKeys w (keyCalls w))
                                  [of_nat (randomInts w (intCalls w) mod range_of p)])\<rparr>),
      [HmacShown (toUpperCase (hmacSha3_256 pf (randomKeys w (keyCalls w))
                                  [of_nat (randomInts w (intCalls w) mod range_of p)]))],
      w\<lparr>keyCalls := Suc (keyCalls w), intCalls := Suc (intCalls w)\<rparr>)"
  by (simp add: Protocol_start_def generateKey_def generateRandomIndex_def computeHmac_def
      printHmac_def calcHmac_def randomKey_def rand_def andThen_def return_def throw_def
      console_log_def)

lemma Protocol_reveal_eq:
  "Protocol_reveal p w =
     (case key p of
        None \<Rightarrow> (Thrown (TypeError nullHasNoToString), [SelectionShown (computerNum p)], w)
      | Some k \<Rightarrow> (Returned (), [SelectionShown (computerNum p), KeyShown k], w))"
  by (simp add: Protocol_reveal_def printKey_def andThen_def console_log_def throw_def
      split: option.splits)

text \<open>What \<open>start()\<close> leaves in the protocol object when it returns.\<close>

lemma started_protocol:
  assumes "Protocol_start pf p w = (Returned p', es, w')"
  shows "\<exists>c k. c < range_of p \<and> computerNum p' = Some c \<and> key p' = Some k
           \<and> hmac p' = Some (hmacSha3_256 pf k [of_nat c])
           \<and> es = [HmacShown (shownTag pf c k)]"
proof -
  have "\<not> (range_of p < 1 \<or> 2 ^ 48 \<le> range_of p)"
  proof
    assume "range_of p < 1 \<or> 2 ^ 48 \<le> range_of p"
    from Protocol_start_bad [OF this, of pf w] assms show False by simp
  qed
  then have "1 \<le> range_of p" "range_of p < 2 ^ 48" by simp_all
  from Protocol_start_ok [OF this, of pf w] assms this(1) show ?thesis
    by (auto simp: shownTag_def)
qed

lemma start_twice:
  assumes "1 \<le> n" "n < 2 ^ 48"
  shows "andThen (Protocol_start pf (new_Protocol n)) (Protocol_start pf) w =
     (Returned ((new_Protocol n)
        \<lparr>key := Some (randomKeys w (Suc (keyCalls w))),
         computerNum := Some (randomInts w (Suc (intCalls w)) mod n),
         hmac := Some (hmacSha3_256 pf (randomKeys w (Suc (keyCalls w)))
                         [of_nat (randomInts w (Suc (intCalls w)) mod n)])\<rparr>),
      [HmacShown (shownTag pf (randomInts w (intCalls w) mod n) (randomKeys w (keyCalls w))),
       HmacShown (shownTag pf (randomInts w (Suc (intCalls w)) mod n) (randomKeys w (Suc (keyCalls w))))],
      w\<lparr>keyCalls := Suc (Suc (keyCalls w)), intCalls := Suc (Suc (intCalls w))\<rparr>)"
proof -
  have one: "1 \<le> range_of (new_Protocol n)" "range_of (new_Protocol n) < 2 ^ 48"
    using assms by (simp_all add: new_Protocol_def)
  note first = Protocol_start_ok [OF one, of pf w]
  let ?p1 = "(new_Protocol n)\<lparr>key := Some (randomKeys w (keyCalls w)),
                  computerNum := Some (randomInts w (intCalls w) mod range_of (new_Protocol n)),
                  hmac := Some (hmacSha3_256 pf (randomKeys w (keyCalls w))
                                  [of_nat (randomInts w (intCalls w) mod range_of (new_Protocol n))])\<rparr>"
  have two: "1 \<le> range_of ?p1" "range_of ?p1 < 2 ^ 48"
    using assms by (simp_all add: new_Protocol_def)
  note second = Protocol_start_ok [OF two, of pf "w\<lparr>keyCalls := Suc (keyCalls w), intCalls := Suc (intCalls w)\<rparr>"]
  show ?thesis
    using first second by (simp add: andThen_def new_Protocol_def shownTag_def)
qed

section \<open>The menu\<close>

lemma disclosure_simps:
  "disclosure [] = []"
  "disclosure (e # es) = (if disclosing e then e # disclosure es else disclosure es)"
  "disclosure (es @ es') = disclosure es @ disclosure es'"
  by (simp_all add: disclosure_def)

lemma in_disclosure: "disclosing e \<Longrightarrow> e \<in> set es \<longleftrightarrow> e \<in> set (disclosure es)"
  by (simp add: disclosure_def)

lemma index_answer:
  assumes "answer \<in> set (map toString [0..<n] @ [''X'', ''?''])" "answer \<noteq> ''?''" "answer \<noteq> ''X''"
  shows "decimalNumber answer < n"
proof -
  from assms obtain i where "i < n" "answer = toString i" by auto
  then show ?thesis by (simp add: decimalNumber_toString)
qed

lemma readInput_loop_spec:
  assumes "readInput_loop prompt (map toString [0..<n] @ [''X'', ''?'']) dl lines = (r, es, rest)"
  shows "\<exists>used. lines = used @ rest \<and> disclosure es = map (Question prompt) used
           \<and> (\<forall>k. r = Returned k \<longrightarrow> used \<noteq> [] \<and> k = decimalNumber (trim (last used)) \<and> k < n)
           \<and> (\<forall>c. r = Exited c \<longrightarrow> c = 1) \<and> (\<forall>e. r \<noteq> Thrown e)
           \<and> (\<forall>e \<in> set es. (\<exists>l. e = Question prompt l) \<or> e = Rejected \<or> (\<exists>t. e = TableShown t))"
  using assms
proof (induction lines arbitrary: r es rest)
  case Nil
  then show ?case by (simp add: disclosure_simps)
next
  case (Cons line lines)
  let ?opts = "map toString [0..<n] @ [''X'', ''?'']"
  consider (refused) "trim line \<notin> set ?opts"
    | (table) "trim line \<in> set ?opts" "trim line = ''?''"
    | (leave) "trim line \<in> set ?opts" "trim line \<noteq> ''?''" "trim line = ''X''"
    | (pick) "trim line \<in> set ?opts" "trim line \<noteq> ''?''" "trim line \<noteq> ''X''"
    by blast
  then show ?case
  proof cases
    case refused
    obtain r1 es1 rest1 where rec: "readInput_loop prompt ?opts dl lines = (r1, es1, rest1)"
      by (cases "readInput_loop prompt ?opts dl lines") auto
    with refused Cons.prems have eq: "r = r1" "es = Question prompt line # Rejected # es1" "rest = rest1"
      by (simp_all add: Let_def)
    from Cons.IH [OF rec] obtain used where u: "lines = used @ rest1"
      "disclosure es1 = map (Question prompt) used"
      "\<forall>k. r1 = Returned k \<longrightarrow> used \<noteq> [] \<and> k = decimalNumber (trim (last used)) \<and> k < n"
      "\<forall>c. r1 = Exited c \<longrightarrow> c = 1" "\<forall>e. r1 \<noteq> Thrown e"
      "\<forall>e \<in> set es1. (\<exists>l. e = Question prompt l) \<or> e = Rejected \<or> (\<exists>t. e = TableShown t)"
      by blast
    show ?thesis
      by (rule exI [of _ "line # used"]) (use u eq in \<open>auto simp: disclosure_simps\<close>)
  next
    case table
    obtain r1 es1 rest1 where rec: "readInput_loop prompt ?opts dl lines = (r1, es1, rest1)"
      by (cases "readInput_loop prompt ?opts dl lines") auto
    with table Cons.prems have eq: "r = r1"
      "es = Question prompt line # TableShown (probabilityTable dl) # es1"
      "rest = rest1"
      by (simp_all add: Let_def)
    from Cons.IH [OF rec] obtain used where u: "lines = used @ rest1"
      "disclosure es1 = map (Question prompt) used"
      "\<forall>k. r1 = Returned k \<longrightarrow> used \<noteq> [] \<and> k = decimalNumber (trim (last used)) \<and> k < n"
      "\<forall>c. r1 = Exited c \<longrightarrow> c = 1" "\<forall>e. r1 \<noteq> Thrown e"
      "\<forall>e \<in> set es1. (\<exists>l. e = Question prompt l) \<or> e = Rejected \<or> (\<exists>t. e = TableShown t)"
      by blast
    show ?thesis
      by (rule exI [of _ "line # used"]) (use u eq in \<open>auto simp: disclosure_simps\<close>)
  next
    case leave
    with Cons.prems have "r = Exited 1" "es = [Question prompt line]" "rest = lines"
      by (simp_all add: Let_def)
    then show ?thesis
      by (intro exI [of _ "[line]"]) (simp add: disclosure_simps)
  next
    case pick
    with Cons.prems have eq: "r = Returned (decimalNumber (trim line))" "es = [Question prompt line]"
      "rest = lines"
      by (simp_all add: Let_def)
    have "decimalNumber (trim line) < n"
      using pick by (rule index_answer)
    with eq show ?thesis
      by (intro exI [of _ "[line]"]) (simp add: disclosure_simps)
  qed
qed

lemma promptSelection_spec:
  assumes "promptSelection msg n dl w = (r, es, w')"
  shows "\<exists>used. stdin w = used @ stdin w' \<and> w' = w\<lparr>stdin := stdin w'\<rparr>
           \<and> disclosure es = map (Question ''Your selection: '') used
           \<and> (\<forall>k. r = Returned k \<longrightarrow> used \<noteq> [] \<and> k = decimalNumber (trim (last used)) \<and> k < n)
           \<and> (\<forall>c. r = Exited c \<longrightarrow> c = 1) \<and> (\<forall>e. r \<noteq> Thrown e)
           \<and> (\<forall>e \<in> set es. (\<exists>m k. e = MenuShown m k) \<or> (\<exists>p l. e = Question p l) \<or> e = Rejected \<or> (\<exists>t. e = TableShown t))"
proof -
  obtain r1 es1 rest where loop:
    "readInput_loop ''Your selection: '' (map toString [0..<n] @ [''X'', ''?'']) dl (stdin w) = (r1, es1, rest)"
    by (cases "readInput_loop ''Your selection: '' (map toString [0..<n] @ [''X'', ''?'']) dl (stdin w)") auto
  with assms have eq: "r = r1" "es = MenuShown msg n # es1" "w' = w\<lparr>stdin := rest\<rparr>"
    by (simp_all add: promptSelection_def andThen_console_log readInput_def)
  from readInput_loop_spec [OF loop] obtain used where u: "stdin w = used @ rest"
      "disclosure es1 = map (Question ''Your selection: '') used"
      "\<forall>k. r1 = Returned k \<longrightarrow> used \<noteq> [] \<and> k = decimalNumber (trim (last used)) \<and> k < n"
      "\<forall>c. r1 = Exited c \<longrightarrow> c = 1" "\<forall>e. r1 \<noteq> Thrown e"
      "\<forall>e \<in> set es1. (\<exists>l. e = Question ''Your selection: '' l) \<or> e = Rejected \<or> (\<exists>t. e = TableShown t)"
    by blast
  show ?thesis
    by (rule exI [of _ used]) (use u eq in \<open>auto simp: disclosure_simps\<close>)
qed

lemma promptSelection_answer:
  assumes "stdin w = l # rest" "trim l = toString i" "i < n"
  shows "promptSelection msg n dl w =
           (Returned i, [MenuShown msg n, Question ''Your selection: '' l], w\<lparr>stdin := rest\<rparr>)"
proof -
  have "toString i \<in> set (map toString [0..<n] @ [''X'', ''?''])"
    using assms(3) by simp
  then show ?thesis
    using assms(1,2) toString_not_command [of i]
    by (simp add: promptSelection_def andThen_console_log readInput_def decimalNumber_toString)
qed

lemma promptSelection_digit:
  assumes "stdin w = [digitChar d] # rest" "d < 10" "d < n"
  shows "promptSelection msg n dl w =
           (Returned d, [MenuShown msg n, Question ''Your selection: '' [digitChar d]],
            w\<lparr>stdin := rest\<rparr>)"
  using assms by (intro promptSelection_answer) (simp_all add: trim_digit toString_digit)

text \<open>A menu is its heading followed by the loop over the lines to come.\<close>

lemma promptSelection_eq:
  "promptSelection msg n dl w =
     (case readInput_loop ''Your selection: '' (map toString [0..<n] @ [''X'', ''?'']) dl (stdin w) of
        (r, es, rest) \<Rightarrow> (r, MenuShown msg n # es, w\<lparr>stdin := rest\<rparr>))"
  by (simp add: promptSelection_def andThen_console_log readInput_def split: prod.splits)

text \<open>The answer a menu returns is the last line it read.\<close>

lemma readInput_loop_accepted:
  assumes "readInput_loop prompt opts dl lines = (Returned u, es, rest)"
  shows "\<exists>line. es \<noteq> [] \<and> last es = Question prompt line \<and> u = decimalNumber (trim line)
           \<and> trim line \<in> set opts"
  using assms
proof (induction lines arbitrary: es)
  case Nil
  then show ?case by simp
next
  case (Cons line lines)
  show ?case
  proof (cases "trim line \<notin> set opts \<or> trim line = ''?''")
    case True
    obtain r1 es1 rest1 where rec: "readInput_loop prompt opts dl lines = (r1, es1, rest1)"
      by (metis prod_cases3)
    with True Cons.prems have eq: "r1 = Returned u" "rest1 = rest"
      "\<exists>e. es = Question prompt line # e # es1"
      by (auto simp: Let_def split: if_splits)
    from rec eq have "readInput_loop prompt opts dl lines = (Returned u, es1, rest)"
      by simp
    from Cons.IH [OF this] eq(3) show ?thesis
      by auto
  next
    case False
    with Cons.prems have "es = [Question prompt line]" "u = decimalNumber (trim line)"
      by (auto simp: Let_def split: if_splits)
    with False show ?thesis by simp
  qed
qed

section \<open>Computations that disclose nothing\<close>

lemma readsOnlyI:
  assumes "\<And>w r es w'. m w = (r, es, w') \<Longrightarrow>
     \<exists>used. stdin w = used @ stdin w' \<and> disclosure es = map (Question ''Your selection: '') used"
  shows "readsOnly m"
  unfolding readsOnly_def using assms by (auto split: prod.splits)

lemma readsOnlyD:
  assumes "readsOnly m" "m w = (r, es, w')"
  shows "\<exists>used. stdin w = used @ stdin w' \<and> disclosure es = map (Question ''Your selection: '') used"
  using assms unfolding readsOnly_def by (auto split: prod.splits dest!: spec [of _ w])

lemma readsOnly_return: "readsOnly (return x)"
  by (rule readsOnlyI) (simp add: return_def disclosure_simps)

lemma readsOnly_rand: "readsOnly (rand n)"
  by (rule readsOnlyI) (auto simp: disclosure_simps dest!: rand_spec)

lemma readsOnly_DiceShown: "readsOnly (console_log (DiceShown who d))"
  by (rule readsOnlyI) (auto simp: console_log_def disclosure_simps)

lemma readsOnly_promptSelection: "readsOnly (promptSelection msg n dl)"
  by (rule readsOnlyI) (blast dest: promptSelection_spec)

lemma readsOnly_andThen:
  assumes m: "readsOnly m" and f: "\<And>x. readsOnly (f x)"
  shows "readsOnly (andThen m f)"
proof (rule readsOnlyI)
  fix w r es w'
  assume run: "andThen m f w = (r, es, w')"
  obtain r1 es1 w1 where m1: "m w = (r1, es1, w1)"
    by (metis prod_cases3)
  from readsOnlyD [OF m m1] obtain used1 where u1: "stdin w = used1 @ stdin w1"
    "disclosure es1 = map (Question ''Your selection: '') used1"
    by blast
  show "\<exists>used. stdin w = used @ stdin w' \<and> disclosure es = map (Question ''Your selection: '') used"
  proof (cases r1)
    case (Returned x)
    obtain r2 es2 w2 where f2: "f x w1 = (r2, es2, w2)"
      by (metis prod_cases3)
    from readsOnlyD [OF f f2] obtain used2 where u2: "stdin w1 = used2 @ stdin w2"
      "disclosure es2 = map (Question ''Your selection: '') used2"
      by blast
    from run m1 Returned f2 have "es = es1 @ es2" "w' = w2"
      by (simp_all add: andThen_def)
    with u1 u2 show ?thesis
      by (intro exI [of _ "used1 @ used2"]) (simp add: disclosure_simps)
  next
    case (Thrown e)
    with run m1 have "es = es1" "w' = w1" by (simp_all add: andThen_def)
    with u1 show ?thesis by blast
  next
    case (Exited c)
    with run m1 have "es = es1" "w' = w1" by (simp_all add: andThen_def)
    with u1 show ?thesis by blast
  next
    case Blocked
    with run m1 have "es = es1" "w' = w1" by (simp_all add: andThen_def)
    with u1 show ?thesis by blast
  qed
qed

section \<open>A roll round\<close>

lemma DiceRoller_start_bad:
  "range_of (rollerProtocol roller) < 1 \<or> 2 ^ 48 \<le> range_of (rollerProtocol roller) \<Longrightarrow>
   DiceRoller_start pf roller dl w =
     (Thrown (RangeError maxOutOfRange), [Narrated (rollIntro (whose roller))],
      w\<lparr>keyCalls := Suc (keyCalls w)\<rparr>)"
  by (simp add: DiceRoller_start_def andThen_console_log Protocol_start_bad andThen_Thrown)

lemma DiceRoller_start_ok:
  "1 \<le> range_of (rollerProtocol roller) \<Longrightarrow> range_of (rollerProtocol roller) < 2 ^ 48 \<Longrightarrow>
   DiceRoller_start pf roller dl w =
     (let c = randomInts w (intCalls w) mod range_of (rollerProtocol roller);
          k = randomKeys w (keyCalls w);
          t = toUpperCase (hmacSha3_256 pf k [of_nat c])
      in case promptSelection ''Add your number modulo 6.'' 6 dl
                (w\<lparr>keyCalls := Suc (keyCalls w), intCalls := Suc (intCalls w)\<rparr>) of
           (Returned u, es2, w2) \<Rightarrow>
             (case (if isUserDice (whose roller) then rollerUserDice roller else rollerComputerDice roller) of
                None \<Rightarrow>
                  (Thrown (TypeError undefinedHasNoRoll),
                   Narrated (rollIntro (whose roller)) # HmacShown t # es2 @
                     [SelectionShown (Some c), KeyShown k, FairShown (Some c) u (fairNumber (Some c) u)], w2)
              | Some d \<Rightarrow>
                  (Returned (roll d (int (fairNumber (Some c) u))),
                   Narrated (rollIntro (whose roller)) # HmacShown t # es2 @
                     [SelectionShown (Some c), KeyShown k, FairShown (Some c) u (fairNumber (Some c) u),
                      RollShown (whose roller) (roll d (int (fairNumber (Some c) u)))], w2))
         | (Thrown e, es2, w2) \<Rightarrow> (Thrown e, Narrated (rollIntro (whose roller)) # HmacShown t # es2, w2)
         | (Exited x, es2, w2) \<Rightarrow> (Exited x, Narrated (rollIntro (whose roller)) # HmacShown t # es2, w2)
         | (Blocked, es2, w2) \<Rightarrow> (Blocked, Narrated (rollIntro (whose roller)) # HmacShown t # es2, w2))"
  by (simp add: DiceRoller_start_def andThen_console_log Protocol_start_ok Protocol_reveal_eq
      andThen_def console_log_def return_def throw_def Let_def
      split: prod.splits outcome.splits option.splits)

lemma DiceRoller_start_disclosure:
  assumes run: "DiceRoller_start pf roller dl w = (r, es, w')"
  defines "c \<equiv> randomInts w (intCalls w) mod range_of (rollerProtocol roller)"
      and "k \<equiv> randomKeys w (keyCalls w)"
  shows "\<exists>used. stdin w = used @ stdin w' \<and>
     (disclosure es = [] \<and> (\<forall>x. r \<noteq> Returned x)
      \<or> 1 \<le> range_of (rollerProtocol roller)
          \<and> disclosure es = HmacShown (shownTag pf c k) # map (Question ''Your selection: '') used
          \<and> (\<forall>x. r \<noteq> Returned x)
      \<or> 1 \<le> range_of (rollerProtocol roller) \<and> used \<noteq> []
          \<and> disclosure es = roundDisclosure pf c k used
          \<and> FairShown (Some c) (decimalNumber (trim (last used)))
               (fairNumber (Some c) (decimalNumber (trim (last used)))) \<in> set es)"
proof (cases "range_of (rollerProtocol roller) < 1 \<or> 2 ^ 48 \<le> range_of (rollerProtocol roller)")
  case True
  from run DiceRoller_start_bad [OF True, of pf dl w] have "es = [Narrated (rollIntro (whose roller))]"
    "stdin w' = stdin w" "r = Thrown (RangeError maxOutOfRange)"
    by auto
  then show ?thesis
    by (intro exI [of _ "[]"]) (simp add: disclosure_simps)
next
  case False
  then have ok: "1 \<le> range_of (rollerProtocol roller)" "range_of (rollerProtocol roller) < 2 ^ 48"
    by simp_all
  let ?w1 = "w\<lparr>keyCalls := Suc (keyCalls w), intCalls := Suc (intCalls w)\<rparr>"
  obtain r2 es2 w2 where ps: "promptSelection ''Add your number modulo 6.'' 6 dl ?w1 = (r2, es2, w2)"
    by (metis prod_cases3)
  from promptSelection_spec [OF ps] obtain used where u: "stdin ?w1 = used @ stdin w2"
    "disclosure es2 = map (Question ''Your selection: '') used"
    "\<forall>u. r2 = Returned u \<longrightarrow> used \<noteq> [] \<and> u = decimalNumber (trim (last used)) \<and> u < 6"
    by blast
  note eq = run [unfolded DiceRoller_start_ok [OF ok, of pf dl w] Let_def ps, folded c_def k_def]
  show ?thesis
  proof (cases r2)
    case (Returned u)
    with u have last: "used \<noteq> []" "u = decimalNumber (trim (last used))" by simp_all
    from eq Returned have w': "w' = w2"
      and es: "\<exists>tl. es = Narrated (rollIntro (whose roller)) # HmacShown (toUpperCase (hmacSha3_256 pf k [of_nat c])) # es2 @
          [SelectionShown (Some c), KeyShown k, FairShown (Some c) u (fairNumber (Some c) u)] @ tl
          \<and> (tl = [] \<or> (\<exists>v. tl = [RollShown (whose roller) v]))"
      by (auto split: option.splits)
    from es obtain tl where es': "es = Narrated (rollIntro (whose roller)) # HmacShown (toUpperCase (hmacSha3_256 pf k [of_nat c])) # es2 @
          [SelectionShown (Some c), KeyShown k, FairShown (Some c) u (fairNumber (Some c) u)] @ tl"
      and tl: "tl = [] \<or> (\<exists>v. tl = [RollShown (whose roller) v])"
      by blast
    from tl have dtl: "disclosure tl = []" by (auto simp: disclosure_simps)
    have "disclosure es = roundDisclosure pf c k used"
      unfolding es' by (simp add: disclosure_simps u dtl roundDisclosure_def shownTag_def)
    moreover have "FairShown (Some c) u (fairNumber (Some c) u) \<in> set es"
      unfolding es' by simp
    ultimately show ?thesis
      using u(1) w' last ok by (intro exI [of _ used]) simp
  next
    case (Thrown e)
    with eq have "w' = w2" "r = Thrown e"
      "es = Narrated (rollIntro (whose roller)) # HmacShown (toUpperCase (hmacSha3_256 pf k [of_nat c])) # es2"
      by simp_all
    then show ?thesis
      using u ok by (intro exI [of _ used]) (simp add: disclosure_simps shownTag_def)
  next
    case (Exited x)
    with eq have "w' = w2" "r = Exited x"
      "es = Narrated (rollIntro (whose roller)) # HmacShown (toUpperCase (hmacSha3_256 pf k [of_nat c])) # es2"
      by simp_all
    then show ?thesis
      using u ok by (intro exI [of _ used]) (simp add: disclosure_simps shownTag_def)
  next
    case Blocked
    with eq have "w' = w2" "r = Blocked"
      "es = Narrated (rollIntro (whose roller)) # HmacShown (toUpperCase (hmacSha3_256 pf k [of_nat c])) # es2"
      by simp_all
    then show ?thesis
      using u ok by (intro exI [of _ used]) (simp add: disclosure_simps shownTag_def)
  qed
qed

text \<open>The whole trace of a roll round.\<close>

lemma DiceRoller_start_trace:
  assumes run: "DiceRoller_start pf roller dl w = (r, es, w')"
  defines "c \<equiv> randomInts w (intCalls w) mod range_of (rollerProtocol roller)"
      and "k \<equiv> randomKeys w (keyCalls w)"
      and "menu \<equiv> readInput_loop ''Your selection: '' (map toString [0..<6] @ [''X'', ''?'']) dl (stdin w)"
  defines "commit \<equiv> Narrated (rollIntro (whose roller)) # HmacShown (shownTag pf c k)
                       # MenuShown ''Add your number modulo 6.'' 6 # fst (snd menu)"
  shows "es = [Narrated (rollIntro (whose roller))] \<and> (\<forall>x. r \<noteq> Returned x)
       \<or> es = commit \<and> (\<forall>u. fst menu \<noteq> Returned u) \<and> (\<forall>x. r \<noteq> Returned x)
       \<or> (\<exists>u tail. fst menu = Returned u
             \<and> es = commit @ [SelectionShown (Some c), KeyShown k,
                              FairShown (Some c) u (fairNumber (Some c) u)] @ tail
             \<and> (tail = [] \<and> (\<forall>x. r \<noteq> Returned x)
                 \<or> (\<exists>x. tail = [RollShown (whose roller) x] \<and> r = Returned x)))"
proof (cases "range_of (rollerProtocol roller) < 1 \<or> 2 ^ 48 \<le> range_of (rollerProtocol roller)")
  case True
  from run DiceRoller_start_bad [OF True, of pf dl w] show ?thesis
    by auto
next
  case False
  then have ok: "1 \<le> range_of (rollerProtocol roller)" "range_of (rollerProtocol roller) < 2 ^ 48"
    by simp_all
  let ?w1 = "w\<lparr>keyCalls := Suc (keyCalls w), intCalls := Suc (intCalls w)\<rparr>"
  obtain r2 es2 rest where loop: "menu = (r2, es2, rest)"
    by (metis prod_cases3)
  then have ps: "promptSelection ''Add your number modulo 6.'' 6 dl ?w1
      = (r2, MenuShown ''Add your number modulo 6.'' 6 # es2, ?w1\<lparr>stdin := rest\<rparr>)"
    by (simp add: promptSelection_eq menu_def)
  have commit: "commit = Narrated (rollIntro (whose roller)) # HmacShown (shownTag pf c k)
                       # MenuShown ''Add your number modulo 6.'' 6 # es2"
    by (simp add: commit_def loop)
  note eq = run [unfolded DiceRoller_start_ok [OF ok, of pf dl w] Let_def ps, folded c_def k_def]
  show ?thesis
  proof (cases r2)
    case (Returned u)
    with eq loop show ?thesis
      unfolding commit by (auto simp: shownTag_def split: option.splits)
  next
    case (Thrown e)
    with eq loop show ?thesis
      unfolding commit by (auto simp: shownTag_def)
  next
    case (Exited x)
    with eq loop show ?thesis
      unfolding commit by (auto simp: shownTag_def)
  next
    case Blocked
    with eq loop show ?thesis
      unfolding commit by (auto simp: shownTag_def)
  qed
qed

text \<open>What a round shows of a secret number is below the range of its protocol object.\<close>

lemma roundDisclosure_selection:
  "SelectionShown x \<in> set (roundDisclosure pf c k used @ map (Question q) used') \<Longrightarrow> x = Some c"
  by (auto simp: roundDisclosure_def)

lemma DiceRoller_start_selection:
  assumes "DiceRoller_start pf roller dl w = (r, es, w')" "SelectionShown x \<in> set es"
  shows "\<exists>c < range_of (rollerProtocol roller). x = Some c"
proof -
  let ?c = "randomInts w (intCalls w) mod range_of (rollerProtocol roller)"
  from assms(2) have "SelectionShown x \<in> set (disclosure es)"
    by (simp add: in_disclosure [symmetric])
  with DiceRoller_start_disclosure [OF assms(1)]
  have "1 \<le> range_of (rollerProtocol roller) \<and> x = Some ?c"
    by (auto simp: roundDisclosure_def)
  then show ?thesis
    by (intro exI [of _ ?c]) simp
qed

lemma roll_round_run:
  assumes line: "stdin w = [digitChar u] # rest" "u < 6"
      and range: "1 \<le> range_of (rollerProtocol roller)" "range_of (rollerProtocol roller) < 2 ^ 48"
      and die: "(if isUserDice (whose roller) then rollerUserDice roller else rollerComputerDice roller) = Some d"
  shows "DiceRoller_start pf roller dl w =
     (let c = randomInts w (intCalls w) mod range_of (rollerProtocol roller);
          k = randomKeys w (keyCalls w);
          v = roll d (int (fairNumber (Some c) u))
      in (Returned v,
          [Narrated (rollIntro (whose roller)), HmacShown (shownTag pf c k),
           MenuShown ''Add your number modulo 6.'' 6, Question ''Your selection: '' [digitChar u],
           SelectionShown (Some c), KeyShown k, FairShown (Some c) u (fairNumber (Some c) u),
           RollShown (whose roller) v],
          w\<lparr>keyCalls := Suc (keyCalls w), intCalls := Suc (intCalls w), stdin := rest\<rparr>))"
proof -
  let ?w1 = "w\<lparr>keyCalls := Suc (keyCalls w), intCalls := Suc (intCalls w)\<rparr>"
  have "promptSelection ''Add your number modulo 6.'' 6 dl ?w1
      = (Returned u, [MenuShown ''Add your number modulo 6.'' 6, Question ''Your selection: '' [digitChar u]],
         ?w1\<lparr>stdin := rest\<rparr>)"
    using line by (intro promptSelection_digit) simp_all
  then show ?thesis
    unfolding DiceRoller_start_ok [OF range] Let_def
    using die by (simp add: shownTag_def)
qed

text \<open>Every selection below the range of its protocol object can come out of a roll round.\<close>

lemma roll_round_selects:
  assumes "c < range_of (rollerProtocol roller)" "range_of (rollerProtocol roller) < 2 ^ 48"
      and "(if isUserDice (whose roller) then rollerUserDice roller else rollerComputerDice roller) = Some d"
  shows "SelectionShown (Some c) \<in> set (fst (snd (DiceRoller_start pf roller dl
           \<lparr>randomInts = (\<lambda>i. c), intCalls = 0, randomKeys = (\<lambda>i. []), keyCalls = 0,
            stdin = [[digitChar 0]]\<rparr>)))"
proof -
  let ?w = "\<lparr>randomInts = (\<lambda>i. c), intCalls = 0, randomKeys = (\<lambda>i. []), keyCalls = 0,
            stdin = [[digitChar 0]]\<rparr>"
  have "1 \<le> range_of (rollerProtocol roller)"
    using assms(1) by simp
  from roll_round_run [of ?w 0 "[]" roller d pf dl, OF _ _ this assms(2,3)] assms(1)
  show ?thesis
    by (simp add: Let_def)
qed

section \<open>Choosing the dice\<close>

lemma element_nth: "i < length xs \<Longrightarrow> element xs (int i) = Some (xs ! i)"
  by (simp add: element_def)

lemma length_splice1: "i < length xs \<Longrightarrow> Suc (length (splice1 i xs)) = length xs"
  by (simp add: splice1_def)

lemma splice1_nth:
  "i < length xs \<Longrightarrow> Suc r < length xs \<Longrightarrow> splice1 i xs ! r = xs ! (if r < i then r else Suc r)"
  by (auto simp: splice1_def nth_append min_def)

lemma userMovesFirst_Returned:
  assumes "userMovesFirst sel dl w = (Returned sel', es, w')"
  shows "\<exists>i j. i < length (dice sel) \<and> j < length (dice sel) \<and> i \<noteq> j
           \<and> userDice sel' = Some (dice sel ! i) \<and> computerDice sel' = Some (dice sel ! j)
           \<and> dice sel' = splice1 i (dice sel) \<and> protocol sel' = protocol sel
           \<and> computerDice sel' \<in> Some ` set (dice sel')"
proof -
  let ?ds = "dice sel"
  obtain r1 es1 w1 where p: "promptSelection ''You make the first move. Choose your dice:'' (length ?ds) dl w = (r1, es1, w1)"
    by (metis prod_cases3)
  from p assms obtain index where r1: "r1 = Returned index"
    by (cases r1) (simp_all add: userMovesFirst_def andThen_def)
  from promptSelection_spec [OF p] r1 have idx: "index < length ?ds" by blast
  let ?d1 = "splice1 index ?ds"
  obtain r2 es2 w2 where q: "rand (length ?d1) w1 = (r2, es2, w2)"
    by (metis prod_cases3)
  from p r1 q assms obtain r where r2: "r2 = Returned r"
    by (cases r2) (simp_all add: userMovesFirst_def andThen_def console_log_def Let_def)
  from rand_spec [OF q] r2 have rlt: "r < length ?d1" by blast
  from idx have len: "Suc (length ?d1) = length ?ds" by (rule length_splice1)
  from p r1 q r2 assms have sel': "sel' = sel\<lparr>dice := ?d1, computerDice := element ?d1 (int r),
      userDice := element ?ds (int index)\<rparr>"
    by (simp add: userMovesFirst_def andThen_def console_log_def return_def Let_def)
  let ?j = "if r < index then r else Suc r"
  have nth: "?d1 ! r = ?ds ! ?j"
    using idx rlt len by (intro splice1_nth) simp_all
  have j: "?j < length ?ds" "index \<noteq> ?j"
    using rlt len by auto
  have u: "userDice sel' = Some (?ds ! index)"
    using sel' idx by (simp add: element_nth)
  have c: "computerDice sel' = Some (?d1 ! r)"
    using sel' rlt by (simp add: element_nth)
  have d: "dice sel' = ?d1" "protocol sel' = protocol sel"
    using sel' by simp_all
  have "computerDice sel' \<in> Some ` set (dice sel')"
    unfolding c d using rlt by simp
  moreover have "computerDice sel' = Some (?ds ! ?j)"
    unfolding c nth ..
  ultimately show ?thesis
    using idx j u d by blast
qed

lemma computerMovesFirst_Returned:
  assumes "computerMovesFirst sel dl w = (Returned sel', es, w')"
  shows "\<exists>i j. i < length (dice sel) \<and> j < length (dice sel) \<and> i \<noteq> j
           \<and> userDice sel' = Some (dice sel ! i) \<and> computerDice sel' = Some (dice sel ! j)
           \<and> dice sel' = splice1 j (dice sel) \<and> protocol sel' = protocol sel
           \<and> userDice sel' \<in> Some ` set (dice sel')"
proof -
  let ?ds = "dice sel"
  obtain r1 es1 w1 where q: "rand (length ?ds) w = (r1, es1, w1)"
    by (metis prod_cases3)
  from q assms obtain index where r1: "r1 = Returned index"
    by (cases r1) (simp_all add: computerMovesFirst_def andThen_def)
  from rand_spec [OF q] r1 have idx: "index < length ?ds" by blast
  let ?d1 = "splice1 index ?ds"
  obtain r2 es2 w2 where p: "promptSelection ''Choose your dice:'' (length ?d1) dl w1 = (r2, es2, w2)"
    by (metis prod_cases3)
  from p r1 q assms obtain choice where r2: "r2 = Returned choice"
    by (cases r2) (simp_all add: computerMovesFirst_def andThen_def console_log_def Let_def)
  from promptSelection_spec [OF p] r2 have clt: "choice < length ?d1" by blast
  from idx have len: "Suc (length ?d1) = length ?ds" by (rule length_splice1)
  from p r1 q r2 assms have sel': "sel' = sel\<lparr>dice := ?d1, computerDice := element ?ds (int index),
      userDice := element ?d1 (int choice)\<rparr>"
    by (simp add: computerMovesFirst_def andThen_def console_log_def return_def Let_def)
  let ?i = "if choice < index then choice else Suc choice"
  have nth: "?d1 ! choice = ?ds ! ?i"
    using idx clt len by (intro splice1_nth) simp_all
  have i: "?i < length ?ds" "?i \<noteq> index"
    using clt len by auto
  have c: "computerDice sel' = Some (?ds ! index)"
    using sel' idx by (simp add: element_nth)
  have u: "userDice sel' = Some (?d1 ! choice)"
    using sel' clt by (simp add: element_nth)
  have d: "dice sel' = ?d1" "protocol sel' = protocol sel"
    using sel' by simp_all
  have "userDice sel' \<in> Some ` set (dice sel')"
    unfolding u d using clt by simp
  moreover have "userDice sel' = Some (?ds ! ?i)"
    unfolding u nth ..
  ultimately show ?thesis
    using idx i c d by blast
qed

lemma readsOnly_userMovesFirst: "readsOnly (userMovesFirst sel dl)"
  unfolding userMovesFirst_def Let_def
  by (intro readsOnly_andThen readsOnly_promptSelection readsOnly_DiceShown readsOnly_rand
      readsOnly_return)

lemma readsOnly_computerMovesFirst: "readsOnly (computerMovesFirst sel dl)"
  unfolding computerMovesFirst_def Let_def
  by (intro readsOnly_andThen readsOnly_promptSelection readsOnly_DiceShown readsOnly_rand
      readsOnly_return)

lemma userMovesFirst_run:
  assumes line: "stdin w = toString i # rest"
      and dice: "i < length (dice sel)" "2 \<le> length (dice sel)" "length (dice sel) \<le> 2 ^ 48"
  shows "userMovesFirst sel dl w =
     (Returned (sel\<lparr>dice := splice1 i (dice sel),
                     computerDice := Some (splice1 i (dice sel)
                        ! (randomInts w (intCalls w) mod (length (dice sel) - 1))),
                     userDice := Some (dice sel ! i)\<rparr>),
      [MenuShown ''You make the first move. Choose your dice:'' (length (dice sel)),
       Question ''Your selection: '' (toString i),
       DiceShown ''You chose the'' (Some (dice sel ! i)),
       DiceShown ''I choose the'' (Some (splice1 i (dice sel)
                        ! (randomInts w (intCalls w) mod (length (dice sel) - 1))))],
      w\<lparr>intCalls := Suc (intCalls w), stdin := rest\<rparr>)"
proof -
  let ?d1 = "splice1 i (dice sel)"
  have len: "Suc (length ?d1) = length (dice sel)"
    using dice(1) by (rule length_splice1)
  have bounds: "1 \<le> length ?d1" "length ?d1 < 2 ^ 48"
    using len dice(2,3) by linarith+
  have l1: "length (dice sel) - 1 = length ?d1"
    using len by simp
  have pos: "randomInts w (intCalls w) mod length ?d1 < length ?d1"
    using bounds(1) by (intro mod_less_divisor) linarith
  have answer: "promptSelection ''You make the first move. Choose your dice:'' (length (dice sel)) dl w
      = (Returned i, [MenuShown ''You make the first move. Choose your dice:'' (length (dice sel)),
                      Question ''Your selection: '' (toString i)], w\<lparr>stdin := rest\<rparr>)"
    using line dice(1) by (intro promptSelection_answer) (simp_all add: trim_toString)
  have draw: "rand (length ?d1) (w\<lparr>stdin := rest\<rparr>)
      = (Returned (randomInts w (intCalls w) mod length ?d1), [],
         w\<lparr>stdin := rest, intCalls := Suc (intCalls w)\<rparr>)"
    using bounds by (simp add: rand_def del: length_0_conv)
  show ?thesis
    unfolding userMovesFirst_def l1
    using answer draw dice(1) pos
    by (simp add: andThen_def console_log_def return_def Let_def element_nth)
qed

section \<open>The first-move round\<close>

lemma DiceSelection_start_bad:
  "range_of (protocol sel) < 1 \<or> 2 ^ 48 \<le> range_of (protocol sel) \<Longrightarrow>
   DiceSelection_start pf sel dl w =
     (Thrown (RangeError maxOutOfRange), [Narrated firstMoveIntro],
      w\<lparr>keyCalls := Suc (keyCalls w)\<rparr>)"
  by (simp add: DiceSelection_start_def andThen_console_log Protocol_start_bad andThen_Thrown)

lemma DiceSelection_start_ok:
  assumes "1 \<le> range_of (protocol sel)" "range_of (protocol sel) < 2 ^ 48"
  shows "DiceSelection_start pf sel dl w =
     (let c = randomInts w (intCalls w) mod range_of (protocol sel);
          k = randomKeys w (keyCalls w);
          h = hmacSha3_256 pf k [of_nat c];
          p1 = (protocol sel)\<lparr>key := Some k, computerNum := Some c, hmac := Some h\<rparr>
      in case promptSelection ''Try to guess my selection.'' 2 dl
                (w\<lparr>keyCalls := Suc (keyCalls w), intCalls := Suc (intCalls w)\<rparr>) of
           (Returned g, es2, w2) \<Rightarrow>
             (let p2 = (if g = c then p1\<lparr>userFirst := True\<rparr> else p1)
              in case (if userFirst p2 then userMovesFirst (sel\<lparr>protocol := p2\<rparr>) dl
                       else computerMovesFirst (sel\<lparr>protocol := p2\<rparr>) dl) w2 of
                   (r3, es3, w3) \<Rightarrow>
                     (r3, Narrated firstMoveIntro # HmacShown (toUpperCase h) # es2 @
                          SelectionShown (Some c) # KeyShown k # es3, w3))
         | (Thrown e, es2, w2) \<Rightarrow> (Thrown e, Narrated firstMoveIntro # HmacShown (toUpperCase h) # es2, w2)
         | (Exited x, es2, w2) \<Rightarrow> (Exited x, Narrated firstMoveIntro # HmacShown (toUpperCase h) # es2, w2)
         | (Blocked, es2, w2) \<Rightarrow> (Blocked, Narrated firstMoveIntro # HmacShown (toUpperCase h) # es2, w2))"
proof -
  let ?w1 = "w\<lparr>keyCalls := Suc (keyCalls w), intCalls := Suc (intCalls w)\<rparr>"
  obtain r2 es2 w2 where ps: "promptSelection ''Try to guess my selection.'' 2 dl ?w1 = (r2, es2, w2)"
    by (metis prod_cases3)
  note start = Protocol_start_ok [OF assms, of pf w]
  show ?thesis
  proof (cases r2)
    case (Returned g)
    let ?c = "randomInts w (intCalls w) mod range_of (protocol sel)"
    show ?thesis
    proof (cases "g = ?c")
      case True
      with Returned ps start show ?thesis
        by (simp add: DiceSelection_start_def console_log_def andThen_def Protocol_reveal_eq
            Let_def split: prod.splits)
    next
      case False
      with Returned ps start show ?thesis
        by (simp add: DiceSelection_start_def console_log_def andThen_def Protocol_reveal_eq
            Let_def split: prod.splits)
    qed
  next
    case (Thrown e)
    with ps start show ?thesis
      by (simp add: DiceSelection_start_def console_log_def andThen_def Let_def)
  next
    case (Exited x)
    with ps start show ?thesis
      by (simp add: DiceSelection_start_def console_log_def andThen_def Let_def)
  next
    case Blocked
    with ps start show ?thesis
      by (simp add: DiceSelection_start_def console_log_def andThen_def Let_def)
  qed
qed

lemma DiceSelection_start_disclosure:
  assumes run: "DiceSelection_start pf sel dl w = (r, es, w')"
  defines "c \<equiv> randomInts w (intCalls w) mod range_of (protocol sel)"
      and "k \<equiv> randomKeys w (keyCalls w)"
  shows "\<exists>used used'. stdin w = used @ used' @ stdin w' \<and>
     (disclosure es = [] \<and> (\<forall>x. r \<noteq> Returned x)
      \<or> 1 \<le> range_of (protocol sel)
          \<and> disclosure es = HmacShown (shownTag pf c k) # map (Question ''Your selection: '') used
          \<and> (\<forall>x. r \<noteq> Returned x)
      \<or> 1 \<le> range_of (protocol sel) \<and> used \<noteq> []
          \<and> disclosure es = roundDisclosure pf c k used @ map (Question ''Your selection: '') used')"
proof (cases "range_of (protocol sel) < 1 \<or> 2 ^ 48 \<le> range_of (protocol sel)")
  case True
  from run DiceSelection_start_bad [OF True, of pf dl w] have "es = [Narrated firstMoveIntro]"
    "stdin w' = stdin w" "r = Thrown (RangeError maxOutOfRange)"
    by auto
  then show ?thesis
    by (intro exI [of _ "[]"]) (simp add: disclosure_simps)
next
  case False
  then have ok: "1 \<le> range_of (protocol sel)" "range_of (protocol sel) < 2 ^ 48"
    by simp_all
  let ?w1 = "w\<lparr>keyCalls := Suc (keyCalls w), intCalls := Suc (intCalls w)\<rparr>"
  let ?h = "hmacSha3_256 pf k [of_nat c]"
  let ?p1 = "(protocol sel)\<lparr>key := Some k, computerNum := Some c, hmac := Some ?h\<rparr>"
  obtain r2 es2 w2 where ps: "promptSelection ''Try to guess my selection.'' 2 dl ?w1 = (r2, es2, w2)"
    by (metis prod_cases3)
  from promptSelection_spec [OF ps] obtain used where u: "stdin ?w1 = used @ stdin w2"
    "disclosure es2 = map (Question ''Your selection: '') used"
    "\<forall>u. r2 = Returned u \<longrightarrow> used \<noteq> [] \<and> u = decimalNumber (trim (last used)) \<and> u < 2"
    by blast
  note eq = run [unfolded DiceSelection_start_ok [OF ok, of pf dl w] Let_def ps, folded c_def k_def]
  show ?thesis
  proof (cases r2)
    case (Returned g)
    with u have last: "used \<noteq> []" by simp
    let ?p2 = "if g = c then ?p1\<lparr>userFirst := True\<rparr> else ?p1"
    let ?next = "if userFirst ?p2 then userMovesFirst (sel\<lparr>protocol := ?p2\<rparr>) dl
                 else computerMovesFirst (sel\<lparr>protocol := ?p2\<rparr>) dl"
    obtain r3 es3 w3 where nx: "?next w2 = (r3, es3, w3)"
      by (metis prod_cases3)
    have "readsOnly ?next"
      by (simp add: readsOnly_userMovesFirst readsOnly_computerMovesFirst)
    from readsOnlyD [OF this nx] obtain used' where u': "stdin w2 = used' @ stdin w3"
      "disclosure es3 = map (Question ''Your selection: '') used'"
      by blast
    from eq Returned nx have "w' = w3"
      "es = Narrated firstMoveIntro # HmacShown (toUpperCase ?h) # es2 @ SelectionShown (Some c) # KeyShown k # es3"
      by simp_all
    then have "stdin w = used @ used' @ stdin w'"
      "disclosure es = roundDisclosure pf c k used @ map (Question ''Your selection: '') used'"
      using u u' by (simp_all add: disclosure_simps roundDisclosure_def shownTag_def)
    then show ?thesis
      using last ok by blast
  next
    case (Thrown e)
    with eq have "w' = w2" "r = Thrown e"
      "es = Narrated firstMoveIntro # HmacShown (toUpperCase ?h) # es2"
      by simp_all
    then show ?thesis
      using u ok by (intro exI [of _ used] exI [of _ "[]"]) (simp add: disclosure_simps shownTag_def)
  next
    case (Exited x)
    with eq have "w' = w2" "r = Exited x"
      "es = Narrated firstMoveIntro # HmacShown (toUpperCase ?h) # es2"
      by simp_all
    then show ?thesis
      using u ok by (intro exI [of _ used] exI [of _ "[]"]) (simp add: disclosure_simps shownTag_def)
  next
    case Blocked
    with eq have "w' = w2" "r = Blocked"
      "es = Narrated firstMoveIntro # HmacShown (toUpperCase ?h) # es2"
      by simp_all
    then show ?thesis
      using u ok by (intro exI [of _ used] exI [of _ "[]"]) (simp add: disclosure_simps shownTag_def)
  qed
qed

text \<open>The trace of the first-move round, up to the choice of the dice.\<close>

lemma DiceSelection_start_trace:
  assumes run: "DiceSelection_start pf sel dl w = (r, es, w')"
  defines "c \<equiv> randomInts w (intCalls w) mod range_of (protocol sel)"
      and "k \<equiv> randomKeys w (keyCalls w)"
      and "menu \<equiv> readInput_loop ''Your selection: '' (map toString [0..<2] @ [''X'', ''?'']) dl (stdin w)"
  defines "commit \<equiv> Narrated firstMoveIntro # HmacShown (shownTag pf c k)
                       # MenuShown ''Try to guess my selection.'' 2 # fst (snd menu)"
  shows "es = [Narrated firstMoveIntro] \<and> (\<forall>x. r \<noteq> Returned x)
       \<or> es = commit \<and> (\<forall>g. fst menu \<noteq> Returned g) \<and> (\<forall>x. r \<noteq> Returned x)
       \<or> (\<exists>g tail used'. fst menu = Returned g
             \<and> es = commit @ [SelectionShown (Some c), KeyShown k] @ tail
             \<and> disclosure tail = map (Question ''Your selection: '') used')"
proof (cases "range_of (protocol sel) < 1 \<or> 2 ^ 48 \<le> range_of (protocol sel)")
  case True
  from run DiceSelection_start_bad [OF True, of pf dl w] show ?thesis
    by auto
next
  case False
  then have ok: "1 \<le> range_of (protocol sel)" "range_of (protocol sel) < 2 ^ 48"
    by simp_all
  let ?w1 = "w\<lparr>keyCalls := Suc (keyCalls w), intCalls := Suc (intCalls w)\<rparr>"
  let ?h = "hmacSha3_256 pf k [of_nat c]"
  let ?p1 = "(protocol sel)\<lparr>key := Some k, computerNum := Some c, hmac := Some ?h\<rparr>"
  obtain r2 es2 rest where loop: "menu = (r2, es2, rest)"
    by (metis prod_cases3)
  then have ps: "promptSelection ''Try to guess my selection.'' 2 dl ?w1
      = (r2, MenuShown ''Try to guess my selection.'' 2 # es2, ?w1\<lparr>stdin := rest\<rparr>)"
    by (simp add: promptSelection_eq menu_def)
  have commit: "commit = Narrated firstMoveIntro # HmacShown (shownTag pf c k)
                       # MenuShown ''Try to guess my selection.'' 2 # es2"
    by (simp add: commit_def loop)
  note eq = run [unfolded DiceSelection_start_ok [OF ok, of pf dl w] Let_def ps, folded c_def k_def]
  show ?thesis
  proof (cases r2)
    case (Returned g)
    let ?p2 = "if g = c then ?p1\<lparr>userFirst := True\<rparr> else ?p1"
    let ?next = "if userFirst ?p2 then userMovesFirst (sel\<lparr>protocol := ?p2\<rparr>) dl
                 else computerMovesFirst (sel\<lparr>protocol := ?p2\<rparr>) dl"
    obtain r3 es3 w3 where nx: "?next (?w1\<lparr>stdin := rest\<rparr>) = (r3, es3, w3)"
      by (metis prod_cases3)
    have "readsOnly ?next"
      by (simp add: readsOnly_userMovesFirst readsOnly_computerMovesFirst)
    from readsOnlyD [OF this nx] obtain used' where
      u': "disclosure es3 = map (Question ''Your selection: '') used'"
      by blast
    from eq Returned nx have
      "es = Narrated firstMoveIntro # HmacShown (toUpperCase ?h) # (MenuShown ''Try to guess my selection.'' 2 # es2)
              @ SelectionShown (Some c) # KeyShown k # es3"
      by simp
    with u' Returned loop show ?thesis
      unfolding commit by (auto simp: shownTag_def)
  next
    case (Thrown e)
    with eq loop show ?thesis
      unfolding commit by (auto simp: shownTag_def)
  next
    case (Exited x)
    with eq loop show ?thesis
      unfolding commit by (auto simp: shownTag_def)
  next
    case Blocked
    with eq loop show ?thesis
      unfolding commit by (auto simp: shownTag_def)
  qed
qed

lemma DiceSelection_start_begins:
  assumes "1 \<le> range_of (protocol sel)" "range_of (protocol sel) < 2 ^ 48"
  shows "\<exists>r es w'. DiceSelection_start pf sel dl w =
           (r, Narrated firstMoveIntro
                 # HmacShown (shownTag pf (randomInts w (intCalls w) mod range_of (protocol sel))
                                (randomKeys w (keyCalls w)))
                 # es, w')"
  unfolding DiceSelection_start_ok [OF assms]
  by (simp add: Let_def shownTag_def split: prod.splits outcome.splits)

lemma DiceSelection_start_selection:
  assumes "DiceSelection_start pf sel dl w = (r, es, w')" "SelectionShown x \<in> set es"
  shows "\<exists>c < range_of (protocol sel). x = Some c"
proof -
  let ?c = "randomInts w (intCalls w) mod range_of (protocol sel)"
  from assms(2) have "SelectionShown x \<in> set (disclosure es)"
    by (simp add: in_disclosure [symmetric])
  with DiceSelection_start_disclosure [OF assms(1)]
  have "1 \<le> range_of (protocol sel) \<and> x = Some ?c"
    by (auto simp: roundDisclosure_def)
  then show ?thesis
    by (intro exI [of _ ?c]) simp
qed

lemma DiceSelection_start_Returned:
  assumes run: "DiceSelection_start pf sel dl w = (Returned sel', es, w')"
  shows "\<exists>i j. i < length (dice sel) \<and> j < length (dice sel) \<and> i \<noteq> j
           \<and> userDice sel' = Some (dice sel ! i) \<and> computerDice sel' = Some (dice sel ! j)
           \<and> dice sel' = splice1 (if userFirst (protocol sel') then i else j) (dice sel)
           \<and> (if userFirst (protocol sel') then computerDice sel' else userDice sel') \<in> Some ` set (dice sel')"
proof -
  have "\<not> (range_of (protocol sel) < 1 \<or> 2 ^ 48 \<le> range_of (protocol sel))"
  proof
    assume "range_of (protocol sel) < 1 \<or> 2 ^ 48 \<le> range_of (protocol sel)"
    from DiceSelection_start_bad [OF this, of pf dl w] run show False by simp
  qed
  then have ok: "1 \<le> range_of (protocol sel)" "range_of (protocol sel) < 2 ^ 48"
    by simp_all
  let ?w1 = "w\<lparr>keyCalls := Suc (keyCalls w), intCalls := Suc (intCalls w)\<rparr>"
  let ?c = "randomInts w (intCalls w) mod range_of (protocol sel)"
  let ?k = "randomKeys w (keyCalls w)"
  let ?p1 = "(protocol sel)\<lparr>key := Some ?k, computerNum := Some ?c,
                hmac := Some (hmacSha3_256 pf ?k [of_nat ?c])\<rparr>"
  obtain r2 es2 w2 where ps: "promptSelection ''Try to guess my selection.'' 2 dl ?w1 = (r2, es2, w2)"
    by (metis prod_cases3)
  note eq = run [unfolded DiceSelection_start_ok [OF ok, of pf dl w] Let_def ps]
  from eq obtain g where g: "r2 = Returned g"
    by (cases r2) simp_all
  let ?p2 = "if g = ?c then ?p1\<lparr>userFirst := True\<rparr> else ?p1"
  show ?thesis
  proof (cases "userFirst ?p2")
    case True
    with eq g obtain es3 where "userMovesFirst (sel\<lparr>protocol := ?p2\<rparr>) dl w2 = (Returned sel', es3, w')"
      by (auto split: prod.splits)
    from userMovesFirst_Returned [OF this] True show ?thesis
      by auto
  next
    case False
    with eq g obtain es3 where "computerMovesFirst (sel\<lparr>protocol := ?p2\<rparr>) dl w2 = (Returned sel', es3, w')"
      by (auto split: prod.splits)
    from computerMovesFirst_Returned [OF this] False show ?thesis
      by auto
  qed
qed

lemma selection_user_first_run:
  assumes lines: "stdin w = [digitChar g] # toString i # rest"
      and guess: "randomInts w (intCalls w) mod range_of (protocol sel) = g" "g < 2"
      and range: "1 \<le> range_of (protocol sel)" "range_of (protocol sel) < 2 ^ 48"
      and dice: "i < length (dice sel)" "2 \<le> length (dice sel)" "length (dice sel) \<le> 2 ^ 48"
  shows "\<exists>es. DiceSelection_start pf sel dl w =
     (Returned (sel\<lparr>dice := splice1 i (dice sel),
                     protocol := (protocol sel)
                       \<lparr>key := Some (randomKeys w (keyCalls w)), computerNum := Some g,
                        hmac := Some (hmacSha3_256 pf (randomKeys w (keyCalls w)) [of_nat g]),
                        userFirst := True\<rparr>,
                     computerDice := Some (splice1 i (dice sel)
                        ! (randomInts w (Suc (intCalls w)) mod (length (dice sel) - 1))),
                     userDice := Some (dice sel ! i)\<rparr>),
      es, w\<lparr>keyCalls := Suc (keyCalls w), intCalls := Suc (Suc (intCalls w)), stdin := rest\<rparr>)"
proof -
  let ?w1 = "w\<lparr>keyCalls := Suc (keyCalls w), intCalls := Suc (intCalls w)\<rparr>"
  let ?w2 = "?w1\<lparr>stdin := toString i # rest\<rparr>"
  let ?p2 = "(protocol sel)\<lparr>key := Some (randomKeys w (keyCalls w)), computerNum := Some g,
                hmac := Some (hmacSha3_256 pf (randomKeys w (keyCalls w)) [of_nat g]),
                userFirst := True\<rparr>"
  have first: "promptSelection ''Try to guess my selection.'' 2 dl ?w1
      = (Returned g, [MenuShown ''Try to guess my selection.'' 2, Question ''Your selection: '' [digitChar g]], ?w2)"
    using lines guess(2) by (intro promptSelection_digit) simp_all
  have "userMovesFirst (sel\<lparr>protocol := ?p2\<rparr>) dl ?w2 =
     (Returned (sel\<lparr>protocol := ?p2\<rparr>\<lparr>dice := splice1 i (dice (sel\<lparr>protocol := ?p2\<rparr>)),
                     computerDice := Some (splice1 i (dice (sel\<lparr>protocol := ?p2\<rparr>))
                        ! (randomInts ?w2 (intCalls ?w2) mod (length (dice (sel\<lparr>protocol := ?p2\<rparr>)) - 1))),
                     userDice := Some (dice (sel\<lparr>protocol := ?p2\<rparr>) ! i)\<rparr>),
      [MenuShown ''You make the first move. Choose your dice:'' (length (dice (sel\<lparr>protocol := ?p2\<rparr>))),
       Question ''Your selection: '' (toString i),
       DiceShown ''You chose the'' (Some (dice (sel\<lparr>protocol := ?p2\<rparr>) ! i)),
       DiceShown ''I choose the'' (Some (splice1 i (dice (sel\<lparr>protocol := ?p2\<rparr>))
                        ! (randomInts ?w2 (intCalls ?w2) mod (length (dice (sel\<lparr>protocol := ?p2\<rparr>)) - 1))))],
      ?w2\<lparr>intCalls := Suc (intCalls ?w2), stdin := rest\<rparr>)"
    using dice by (intro userMovesFirst_run) simp_all
  with first guess(1) show ?thesis
    by (simp add: DiceSelection_start_ok [OF range] Let_def)
qed

section \<open>The configuration parser\<close>

lemma some_isNaN: "list_ex isNaN (map f xs) \<longleftrightarrow> (\<exists>t \<in> set xs. f t = NaN)"
  by (induction xs) (simp_all add: isNaN_def)

lemma parseConfig_Inl:
  "parseConfig pf str = Inl e \<longleftrightarrow>
     e = Error (invalidMessage str)
     \<and> (length (split_comma str) < 2 \<or> (\<exists>t \<in> set (split_comma str). Number pf t = NaN))"
  unfolding parseConfig_def Let_def some_isNaN by auto

lemma parseConfig_Inr:
  "parseConfig pf str = Inr faces \<longleftrightarrow>
     faces = map (Number pf) (split_comma str)
     \<and> 2 \<le> length (split_comma str) \<and> (\<forall>t \<in> set (split_comma str). Number pf t \<noteq> NaN)"
  unfolding parseConfig_def Let_def some_isNaN by auto

lemma map_throwing_Inl: "map_throwing f xs = Inl e \<Longrightarrow> \<exists>x \<in> set xs. f x = Inl e"
  by (induction xs arbitrary: e) (auto split: sum.splits)

lemma map_throwing_fails: "x \<in> set xs \<Longrightarrow> f x = Inl e \<Longrightarrow> \<exists>e'. map_throwing f xs = Inl e'"
  by (induction xs) (auto split: sum.splits)

lemma map_throwing_Inr:
  "(\<And>x. x \<in> set xs \<Longrightarrow> f x = Inr (g x)) \<Longrightarrow> map_throwing f xs = Inr (map g xs)"
  by (induction xs) simp_all

lemma map_throwing_length: "map_throwing f xs = Inr ys \<Longrightarrow> length ys = length xs"
  by (induction xs arbitrary: ys) (auto split: sum.splits)

lemma map_throwing_results:
  "map_throwing f xs = Inr ys \<Longrightarrow> y \<in> set ys \<Longrightarrow> \<exists>x \<in> set xs. f x = Inr y"
  by (induction xs arbitrary: ys) (auto split: sum.splits)

lemma new_DiceConfigParser_accepts:
  assumes "3 \<le> length (drop 2 av)"
      and "\<forall>str \<in> set (drop 2 av).
             2 \<le> length (split_comma str) \<and> (\<forall>t \<in> set (split_comma str). Number pf t \<noteq> NaN)"
  shows "new_DiceConfigParser pf av =
           Inr \<lparr>argv = drop 2 av,
                diceConfig = map (\<lambda>str. map (Number pf) (split_comma str)) (drop 2 av)\<rparr>"
proof -
  have "map_throwing (parseConfig pf) (drop 2 av)
          = Inr (map (\<lambda>str. map (Number pf) (split_comma str)) (drop 2 av))"
    using assms(2) by (intro map_throwing_Inr) (simp add: parseConfig_Inr)
  with assms(1) show ?thesis
    by (simp add: new_DiceConfigParser_def Let_def)
qed

lemma parser_has_three_dice:
  assumes "new_DiceConfigParser pf av = Inr parser"
  shows "3 \<le> length (diceConfig parser)"
proof -
  from assms have "\<not> length (drop 2 av) < 3"
    by (auto simp: new_DiceConfigParser_def Let_def)
  moreover from assms have "map_throwing (parseConfig pf) (drop 2 av) = Inr (diceConfig parser)"
    by (auto simp: new_DiceConfigParser_def Let_def split: if_splits sum.splits)
  ultimately show ?thesis
    by (auto dest: map_throwing_length)
qed

lemma accepted_die_has_two_faces:
  assumes "new_DiceConfigParser pf av = Inr parser" "d \<in> set (getDiceConfig parser)"
  shows "2 \<le> numberOfFaces d \<and> NaN \<notin> set (getValues d)"
proof -
  from assms(1) have "map_throwing (parseConfig pf) (drop 2 av) = Inr (diceConfig parser)"
    by (auto simp: new_DiceConfigParser_def Let_def split: if_splits sum.splits)
  moreover from assms(2) have "getValues d \<in> set (diceConfig parser)"
    by (auto simp: getDiceConfig_def)
  ultimately obtain str where "parseConfig pf str = Inr (getValues d)"
    by (blast dest: map_throwing_results)
  then show ?thesis
    by (auto simp: parseConfig_Inr numberOfFaces_def)
qed

section \<open>The whole game\<close>

lemma main_on_error:
  "new_DiceConfigParser pf av = Inl e \<Longrightarrow> main pf av w = (Exited 1, [ErrorShown (message e)], w)"
  by (simp add: main_def andThen_console_log exit_def)

lemma result_events: "result u c w = (r, es, w') \<Longrightarrow> \<exists>t. es = [OutcomeShown t u c]"
  by (auto simp: result_def console_log_def split: if_splits)

lemma main_selection:
  assumes run: "main pf av w = (r, es, w')" and sel: "SelectionShown x \<in> set es"
  shows "\<exists>c<5. x = Some c"
proof (cases "new_DiceConfigParser pf av")
  case (Inl e)
  with run sel show ?thesis
    by (auto simp: main_def andThen_def console_log_def exit_def)
next
  case (Inr parser)
  let ?dl = "getRawDiceConfig parser"
  have small: "\<exists>c<5. x = Some c" if "\<exists>c<2. x = Some c"
    using that by auto
  note run' = run [unfolded main_def Inr sum.case]
  from andThen_event [OF run' sel] show ?thesis
  proof (elim disjE exE conjE)
    fix r1 es1 w1
    assume "DiceSelection_start pf (new_DiceSelection (getDiceConfig parser) (new_Protocol 2)) ?dl w = (r1, es1, w1)"
      "SelectionShown x \<in> set es1"
    from DiceSelection_start_selection [OF this] show ?thesis
      by (auto simp: new_DiceSelection_def new_Protocol_def)
  next
    fix s es1 w1 r2 es2 w2
    assume run2: "andThen (console_log (Narrated gameIntro)) (\<lambda>_.
          andThen (DiceRoller_start pf
                     \<lparr>whose = ''My'', rollerProtocol = new_Protocol 5,
                      rollerUserDice = userDice s, rollerComputerDice = computerDice s\<rparr> ?dl) (\<lambda>computerResult.
          andThen (DiceRoller_start pf
                     \<lparr>whose = ''Your'', rollerProtocol = new_Protocol 5,
                      rollerUserDice = userDice s, rollerComputerDice = computerDice s\<rparr> ?dl) (\<lambda>userResult.
          result userResult computerResult))) w1 = (r2, es2, w2)"
      and sel2: "SelectionShown x \<in> set es2"
    from andThen_event [OF run2 sel2] show ?thesis
    proof (elim disjE exE conjE)
      fix r1 es1 w1'
      assume "console_log (Narrated gameIntro) w1 = (r1, es1, w1')" "SelectionShown x \<in> set es1"
      then show ?thesis by (auto simp: console_log_def)
    next
      fix u es1 w3 r3 es3 w4
      assume run3: "andThen (DiceRoller_start pf
                     \<lparr>whose = ''My'', rollerProtocol = new_Protocol 5,
                      rollerUserDice = userDice s, rollerComputerDice = computerDice s\<rparr> ?dl) (\<lambda>computerResult.
          andThen (DiceRoller_start pf
                     \<lparr>whose = ''Your'', rollerProtocol = new_Protocol 5,
                      rollerUserDice = userDice s, rollerComputerDice = computerDice s\<rparr> ?dl) (\<lambda>userResult.
          result userResult computerResult)) w3 = (r3, es3, w4)"
        and sel3: "SelectionShown x \<in> set es3"
      from andThen_event [OF run3 sel3] show ?thesis
      proof (elim disjE exE conjE)
        fix r1 es1 w1'
        assume "DiceRoller_start pf
                     \<lparr>whose = ''My'', rollerProtocol = new_Protocol 5,
                      rollerUserDice = userDice s, rollerComputerDice = computerDice s\<rparr> ?dl w3 = (r1, es1, w1')"
          "SelectionShown x \<in> set es1"
        from DiceRoller_start_selection [OF this] show ?thesis
          by (simp add: new_Protocol_def)
      next
        fix computerResult es1 w5 r4 es4 w6
        assume run4: "andThen (DiceRoller_start pf
                     \<lparr>whose = ''Your'', rollerProtocol = new_Protocol 5,
                      rollerUserDice = userDice s, rollerComputerDice = computerDice s\<rparr> ?dl) (\<lambda>userResult.
          result userResult computerResult) w5 = (r4, es4, w6)"
          and sel4: "SelectionShown x \<in> set es4"
        from andThen_event [OF run4 sel4] show ?thesis
        proof (elim disjE exE conjE)
          fix r1 es1 w1'
          assume "DiceRoller_start pf
                     \<lparr>whose = ''Your'', rollerProtocol = new_Protocol 5,
                      rollerUserDice = userDice s, rollerComputerDice = computerDice s\<rparr> ?dl w5 = (r1, es1, w1')"
            "SelectionShown x \<in> set es1"
          from DiceRoller_start_selection [OF this] show ?thesis
            by (simp add: new_Protocol_def)
        next
          fix userResult es1 w7 r5 es5 w8
          assume "result userResult computerResult w7 = (r5, es5, w8)" "SelectionShown x \<in> set es5"
          then show ?thesis by (auto dest: result_events)
        qed
      qed
    qed
  qed
qed

lemma main_rolls_past_the_end:
  assumes parser: "new_DiceConfigParser pf av = Inr parser"
      and short: "k < length (diceConfig parser)" "length (diceConfig parser ! k) < 6"
      and many: "length (diceConfig parser) \<le> 2 ^ 48"
  shows "\<exists>w es w'. main pf av w = (Returned (), es, w') \<and> RollShown ''Your'' None \<in> set es"
proof -
  define ds where "ds = getDiceConfig parser"
  define dl where "dl = getRawDiceConfig parser"
  define w where "w = \<lparr>randomInts = (\<lambda>i. 0), intCalls = 0, randomKeys = (\<lambda>i. []), keyCalls = 0,
      stdin = [[digitChar 0], toString k, [digitChar 5], [digitChar 5]]\<rparr>"
  define w1 where "w1 = w\<lparr>keyCalls := Suc (keyCalls w), intCalls := Suc (Suc (intCalls w)),
      stdin := [[digitChar 5], [digitChar 5]]\<rparr>"
  define w2 where "w2 = w1\<lparr>keyCalls := Suc (keyCalls w1), intCalls := Suc (intCalls w1),
      stdin := [[digitChar 5]]\<rparr>"
  define w3 where "w3 = w2\<lparr>keyCalls := Suc (keyCalls w2), intCalls := Suc (intCalls w2), stdin := []\<rparr>"
  define mine where "mine = splice1 k ds ! 0"
  define sel1 where "sel1 = (new_DiceSelection ds (new_Protocol 2))
      \<lparr>dice := splice1 k ds,
       protocol := (new_Protocol 2)\<lparr>key := Some [], computerNum := Some 0,
                     hmac := Some (hmacSha3_256 pf [] [0]), userFirst := True\<rparr>,
       computerDice := Some mine, userDice := Some (ds ! k)\<rparr>"
  have len: "length ds = length (diceConfig parser)" "3 \<le> length ds"
    using parser_has_three_dice [OF parser] by (simp_all add: ds_def getDiceConfig_def)
  have yours: "getValues (ds ! k) = diceConfig parser ! k"
    using short(1) by (simp add: ds_def getDiceConfig_def)
  obtain es1 where s1: "DiceSelection_start pf (new_DiceSelection ds (new_Protocol 2)) dl w = (Returned sel1, es1, w1)"
    using selection_user_first_run [of w 0 k "[[digitChar 5], [digitChar 5]]"
        "new_DiceSelection ds (new_Protocol 2)" pf dl] len short(1) many
    by (auto simp: w_def w1_def sel1_def mine_def new_DiceSelection_def new_Protocol_def)
  have s2: "DiceRoller_start pf \<lparr>whose = ''My'', rollerProtocol = new_Protocol 5,
               rollerUserDice = Some (ds ! k), rollerComputerDice = Some mine\<rparr> dl w1
      = (Returned (roll mine 5),
         [Narrated (rollIntro ''My''), HmacShown (shownTag pf 0 []),
          MenuShown ''Add your number modulo 6.'' 6, Question ''Your selection: '' [digitChar 5],
          SelectionShown (Some 0), KeyShown [], FairShown (Some 0) 5 5, RollShown ''My'' (roll mine 5)],
         w2)"
    by (subst roll_round_run [of w1 5 "[[digitChar 5]]" _ mine])
       (simp_all add: w1_def w2_def w_def new_Protocol_def isUserDice_def fairNumber_def Let_def)
  have none: "roll (ds ! k) 5 = None"
    using short(2) yours by (simp add: roll_def element_def)
  have s3: "DiceRoller_start pf \<lparr>whose = ''Your'', rollerProtocol = new_Protocol 5,
               rollerUserDice = Some (ds ! k), rollerComputerDice = Some mine\<rparr> dl w2
      = (Returned None,
         [Narrated (rollIntro ''Your''), HmacShown (shownTag pf 0 []),
          MenuShown ''Add your number modulo 6.'' 6, Question ''Your selection: '' [digitChar 5],
          SelectionShown (Some 0), KeyShown [], FairShown (Some 0) 5 5, RollShown ''Your'' None],
         w3)"
    by (subst roll_round_run [of w2 5 "[]" _ "ds ! k"])
       (simp_all add: w1_def w2_def w3_def w_def new_Protocol_def isUserDice_def fairNumber_def none Let_def)
  have "\<exists>es. main pf av w = (Returned (), es, w3) \<and> RollShown ''Your'' None \<in> set es"
    using s1 s2 s3
    by (simp add: main_def parser andThen_def console_log_def result_def ds_def [symmetric]
        dl_def [symmetric] sel1_def new_DiceSelection_def)
  then show ?thesis by blast
qed

text \<open>With an accepted configuration the first round starts, whatever the world.\<close>

lemma main_starts_round:
  assumes "new_DiceConfigParser pf av = Inr parser"
  shows "\<exists>r es w'. main pf av w =
           (r, Narrated firstMoveIntro
                 # HmacShown (shownTag pf (randomInts w (intCalls w) mod 2) (randomKeys w (keyCalls w)))
                 # es, w')"
proof -
  let ?sel = "new_DiceSelection (getDiceConfig parser) (new_Protocol 2)"
  have "1 \<le> range_of (protocol ?sel)" "range_of (protocol ?sel) < 2 ^ 48"
    by (simp_all add: new_DiceSelection_def new_Protocol_def)
  from DiceSelection_start_begins [OF this, of pf "getRawDiceConfig parser" w]
  obtain r1 es1 w1 where s: "DiceSelection_start pf ?sel (getRawDiceConfig parser) w =
      (r1, Narrated firstMoveIntro
             # HmacShown (shownTag pf (randomInts w (intCalls w) mod 2) (randomKeys w (keyCalls w)))
             # es1, w1)"
    by (auto simp: new_DiceSelection_def new_Protocol_def)
  show ?thesis
    unfolding main_def assms sum.case
    using s by (cases r1) (auto simp: andThen_def split: prod.splits)
qed

section \<open>Runs of the examples\<close>

lemma examplePlatform_numbers:
  "Number examplePlatform ''1.5'' = Fin (3 / 2)" "Number examplePlatform ''-2.5'' = Fin (- 5 / 2)"
  by (simp_all add: examplePlatform_def decimalLiteral_def unsignedDecimal_def trim_def
      isWhiteSpace_def isDigit_def decimalNumber_def digitValue_def)

lemma example_fractions_accepted:
  "new_DiceConfigParser examplePlatform [node, script, ''1.5,-2.5'', ''1.5,-2.5'', ''1.5,-2.5'']
     = Inr \<lparr>argv = [''1.5,-2.5'', ''1.5,-2.5'', ''1.5,-2.5''],
            diceConfig = [[Fin (3 / 2), Fin (- 5 / 2)], [Fin (3 / 2), Fin (- 5 / 2)],
                          [Fin (3 / 2), Fin (- 5 / 2)]]\<rparr>"
  by (subst new_DiceConfigParser_accepts) (simp_all add: examplePlatform_numbers)

lemma example_not_a_number:
  "new_DiceConfigParser examplePlatform [node, script, ''1,2'', ''3,x'', ''4,5'']
     = Inl (Error (invalidMessage ''3,x''))"
  by (simp add: new_DiceConfigParser_def parseConfig_def examplePlatform_def decimalLiteral_def
      unsignedDecimal_def trim_def isWhiteSpace_def isDigit_def decimalNumber_def digitValue_def
      isNaN_def)

lemma exampleWorld_after_start:
  "(exampleWorld ls)\<lparr>keyCalls := Suc (keyCalls (exampleWorld ls)), intCalls := Suc (intCalls (exampleWorld ls))\<rparr>
     = (exampleWorld ls)\<lparr>intCalls := Suc 0, keyCalls := Suc 0\<rparr>"
  by (simp add: exampleWorld_def)

lemma example_selection:
  "fst (DiceSelection_start examplePlatform (new_DiceSelection exampleDice (new_Protocol 2)) dl
          (exampleWorld [''0'', ''2'']))
   = Returned \<lparr>dice = [exampleDice ! 0, exampleDice ! 1],
               protocol = (new_Protocol 2)
                 \<lparr>key := Some (replicate 32 161), computerNum := Some 0,
                  hmac := Some (hmacSha3_256 examplePlatform (replicate 32 161) [0]),
                  userFirst := True\<rparr>,
               computerDice = Some (exampleDice ! 1), userDice = Some (exampleDice ! 2)\<rparr>"
proof -
  let ?sel = "new_DiceSelection exampleDice (new_Protocol 2)"
  let ?w0 = "exampleWorld [''0'', ''2'']"
  have ok: "1 \<le> range_of (protocol ?sel)" "range_of (protocol ?sel) < 2 ^ 48"
    by (simp_all add: new_DiceSelection_def new_Protocol_def)
  have guess: "promptSelection ''Try to guess my selection.'' 2 dl
                 (?w0\<lparr>keyCalls := Suc (keyCalls ?w0), intCalls := Suc (intCalls ?w0)\<rparr>)
      = (Returned 0, [MenuShown ''Try to guess my selection.'' 2, Question ''Your selection: '' [digitChar 0]],
         (exampleWorld [''2''])\<lparr>intCalls := Suc 0, keyCalls := Suc 0\<rparr>)"
    by (subst promptSelection_digit [of _ 0 "[''2'']"]) (simp_all add: exampleWorld_def digit_literals)
  have choice: "promptSelection ''You make the first move. Choose your dice:'' 3 dl
                 ((exampleWorld [''2''])\<lparr>intCalls := Suc 0, keyCalls := Suc 0\<rparr>)
      = (Returned 2, [MenuShown ''You make the first move. Choose your dice:'' 3,
                      Question ''Your selection: '' [digitChar 2]],
         (exampleWorld [])\<lparr>intCalls := Suc 0, keyCalls := Suc 0\<rparr>)"
    by (subst promptSelection_digit [of _ 2 "[]"]) (simp_all add: exampleWorld_def digit_literals)
  have draw: "rand 2 ((exampleWorld [])\<lparr>intCalls := Suc 0, keyCalls := Suc 0\<rparr>)
      = (Returned 1, [], (exampleWorld [])\<lparr>intCalls := 2, keyCalls := Suc 0\<rparr>)"
    by (simp add: rand_def exampleWorld_def)
  have len: "length exampleDice = 3" "length (splice1 2 exampleDice) = 2"
    by (simp_all add: exampleDice_def splice1_def)
  have c: "randomInts ?w0 (intCalls ?w0) mod range_of (protocol ?sel) = 0"
    "randomKeys ?w0 (keyCalls ?w0) = replicate 32 161"
    by (simp_all add: exampleWorld_def new_DiceSelection_def new_Protocol_def)
  show ?thesis
    unfolding DiceSelection_start_ok [OF ok] Let_def guess c
    by (simp add: userMovesFirst_def new_DiceSelection_def len choice draw andThen_def
        console_log_def return_def Let_def)
      (simp add: element_def splice1_def exampleDice_def new_Protocol_def)
qed

lemma example_roll:
  "fst (DiceRoller_start examplePlatform
          \<lparr>whose = ''My'', rollerProtocol = new_Protocol 5,
           rollerUserDice = Some (exampleDice ! 2), rollerComputerDice = Some (exampleDice ! 1)\<rparr> dl
          (exampleWorld [''5'']))
   = Returned (Some (Fin 6))"
proof -
  let ?roller = "\<lparr>whose = ''My'', rollerProtocol = new_Protocol 5,
           rollerUserDice = Some (exampleDice ! 2), rollerComputerDice = Some (exampleDice ! 1)\<rparr>"
  let ?w0 = "exampleWorld [''5'']"
  have ok: "1 \<le> range_of (rollerProtocol ?roller)" "range_of (rollerProtocol ?roller) < 2 ^ 48"
    by (simp_all add: new_Protocol_def)
  have answer: "promptSelection ''Add your number modulo 6.'' 6 dl
                 (?w0\<lparr>keyCalls := Suc (keyCalls ?w0), intCalls := Suc (intCalls ?w0)\<rparr>)
      = (Returned 5, [MenuShown ''Add your number modulo 6.'' 6, Question ''Your selection: '' [digitChar 5]],
         (exampleWorld [])\<lparr>intCalls := Suc 0, keyCalls := Suc 0\<rparr>)"
    by (subst promptSelection_digit [of _ 5 "[]"]) (simp_all add: exampleWorld_def digit_literals)
  have c: "randomInts ?w0 (intCalls ?w0) mod range_of (rollerProtocol ?roller) = 0"
    by (simp add: exampleWorld_def)
  show ?thesis
    unfolding DiceRoller_start_ok [OF ok] Let_def answer c
    by (simp add: isUserDice_def roll_def element_def exampleDice_def fairNumber_def)
qed

section \<open>Counting and modular arithmetic\<close>

lemma mod6_cancel_le:
  assumes "(c + u) mod 6 = (c + u') mod (6::nat)" "u \<le> u'" "u' < 6"
  shows "u = u'"
proof -
  have le: "c + u \<le> c + u'" using assms(2) by simp
  have "(c + u') mod 6 = (c + u) mod 6" using assms(1) by (rule sym)
  then have "6 dvd (c + u') - (c + u)"
    by (rule iffD1 [OF mod_eq_dvd_iff_nat [OF le]])
  moreover have "(c + u') - (c + u) = u' - u" by simp
  ultimately have "6 dvd u' - u" by (simp only:)
  moreover have "u' - u < 6" using assms(3) by simp
  ultimately have "u' - u = 0"
    using nat_dvd_not_less [of "u' - u" 6] by (cases "u' - u = 0") simp_all
  then show ?thesis using assms(2) by simp
qed

lemma fairNumber_less: "fairNumber c u < 6"
  by (simp add: fairNumber_def)

lemma fairNumber_inj:
  assumes "u < 6" "u' < 6" "fairNumber (Some c) u = fairNumber (Some c) u'"
  shows "u = u'"
proof (cases "u \<le> u'")
  case True
  then show ?thesis using assms mod6_cancel_le [of c u u'] by (simp add: fairNumber_def)
next
  case False
  then have "u' \<le> u" by simp
  then show ?thesis using assms mod6_cancel_le [of c u' u] by (simp add: fairNumber_def)
qed

lemma count_true_map:
  "length (filter (\<lambda>b. b) (map f xs)) = card {j. j < length xs \<and> f (xs ! j)}"
proof -
  have "{i. i < length (map f xs) \<and> map f xs ! i} = {j. j < length xs \<and> f (xs ! j)}"
    by auto
  then show ?thesis
    by (simp only: length_filter_conv_card)
qed

text \<open>The wins that \<open>computeWinProbability\<close> counts are the pairs of positions whose
  faces compare.\<close>

lemma wins_count:
  "length (filter (\<lambda>b. b) (concat (map (\<lambda>x. map (\<lambda>y. js_gt x y) B) A)))
     = card {(i, j). i < length A \<and> j < length B \<and> js_gt (A ! i) (B ! j)}"
proof (induction A)
  case Nil
  then show ?case by simp
next
  case (Cons a A)
  let ?S = "{(i, j). i < length A \<and> j < length B \<and> js_gt (A ! i) (B ! j)}"
  let ?R = "{j. j < length B \<and> js_gt a (B ! j)}"
  have "?S \<subseteq> {..<length A} \<times> {..<length B}" by auto
  then have finS: "finite ?S" by (rule finite_subset) simp
  have finR: "finite ?R" by simp
  have split: "{(i, j). i < length (a # A) \<and> j < length B \<and> js_gt ((a # A) ! i) (B ! j)}
      = Pair 0 ` ?R \<union> (\<lambda>(i, j). (Suc i, j)) ` ?S" (is "?L = _")
  proof (rule set_eqI)
    fix p :: "nat \<times> nat"
    obtain i j where p: "p = (i, j)" by (cases p)
    show "p \<in> ?L \<longleftrightarrow> p \<in> Pair 0 ` ?R \<union> (\<lambda>(i, j). (Suc i, j)) ` ?S"
    proof (cases i)
      case 0
      then show ?thesis unfolding p by auto
    next
      case (Suc k)
      then show ?thesis unfolding p by (auto simp: image_iff)
    qed
  qed
  have disj: "Pair 0 ` ?R \<inter> (\<lambda>(i, j). (Suc i, j)) ` ?S = {}"
    by auto
  have c1: "card (Pair 0 ` ?R) = card ?R"
    by (rule card_image) (simp add: inj_on_def)
  have c2: "card ((\<lambda>(i, j). (Suc i, j)) ` ?S) = card ?S"
    by (rule card_image) (auto simp: inj_on_def)
  have "card ?L = card ?R + card ?S"
    unfolding split using finS finR disj c1 c2 by (simp add: card_Un_disjoint)
  moreover have "length (filter (\<lambda>b. b) (concat (map (\<lambda>x. map (\<lambda>y. js_gt x y) B) (a # A))))
      = length (filter (\<lambda>b. b) (map (\<lambda>y. js_gt a y) B))
        + length (filter (\<lambda>b. b) (concat (map (\<lambda>x. map (\<lambda>y. js_gt x y) B) A)))"
    by (simp only: list.map concat.simps filter_append length_append)
  moreover have "length (filter (\<lambda>b. b) (map (\<lambda>y. js_gt a y) B)) = card ?R"
    by (rule count_true_map)
  ultimately show ?case
    using Cons.IH by (simp only:)
qed

section \<open>The range of a roll round (C1)\<close>

text \<open>
  C1. The specification has the secret number of a roll round drawn from \<open>[0, 6)\<close>,
  so that each of 0 to 5 is a possible selection. In the program \<open>main\<close> builds both roll
  rounds with \<open>new Protocol(5)\<close>, while it announces "a random value in the range
  0..5" and reduces the sum modulo 6: whatever the command line, the randomness and the
  input, no run of \<open>main\<close> ever shows the selection 5, and the selections of a roll
  round so built are the numbers below 5, each of which does come out.
\<close>

theorem roll_rounds_never_select_5:
  "SelectionShown (Some 5) \<notin> set (fst (snd (main pf process_argv w)))
   \<and> (c < 5 \<longrightarrow>
        (\<exists>v. SelectionShown (Some c) \<in> set (fst (snd (DiceRoller_start pf
                \<lparr>whose = who, rollerProtocol = new_Protocol 5,
                 rollerUserDice = Some d, rollerComputerDice = Some d\<rparr> dl v)))))"
proof
  show "SelectionShown (Some 5) \<notin> set (fst (snd (main pf process_argv w)))"
  proof
    assume five: "SelectionShown (Some 5) \<in> set (fst (snd (main pf process_argv w)))"
    have "main pf process_argv w
            = (fst (main pf process_argv w), fst (snd (main pf process_argv w)),
               snd (snd (main pf process_argv w)))"
      by simp
    from main_selection [OF this five] show False
      by simp
  qed
  show "c < 5 \<longrightarrow>
        (\<exists>v. SelectionShown (Some c) \<in> set (fst (snd (DiceRoller_start pf
                \<lparr>whose = who, rollerProtocol = new_Protocol 5,
                 rollerUserDice = Some d, rollerComputerDice = Some d\<rparr> dl v))))"
  proof
    assume "c < 5"
    then have "SelectionShown (Some c) \<in> set (fst (snd (DiceRoller_start pf
                \<lparr>whose = who, rollerProtocol = new_Protocol 5,
                 rollerUserDice = Some d, rollerComputerDice = Some d\<rparr> dl
                \<lparr>randomInts = (\<lambda>i. c), intCalls = 0, randomKeys = (\<lambda>i. []), keyCalls = 0,
                 stdin = [[digitChar 0]]\<rparr>)))"
      by (intro roll_round_selects [of c _ d]) (simp_all add: new_Protocol_def)
    then show "\<exists>v. SelectionShown (Some c) \<in> set (fst (snd (DiceRoller_start pf
                \<lparr>whose = who, rollerProtocol = new_Protocol 5,
                 rollerUserDice = Some d, rollerComputerDice = Some d\<rparr> dl v)))"
      by (rule exI)
  qed
qed

theorem roll_rounds_never_select_5_witness:
  "(4::nat) < 5
   \<and> SelectionShown (Some 5) \<notin> set (fst (snd (main examplePlatform
        [''node'', ''diceGame.js'', ''2,2,4,4,9,9'', ''6,8,1,1,8,6'', ''7,5,3,7,5,3'']
        (exampleWorld [''0'', ''2'', ''5'', ''5'']))))
   \<and> (\<exists>v. SelectionShown (Some 4) \<in> set (fst (snd (DiceRoller_start examplePlatform
                \<lparr>whose = ''My'', rollerProtocol = new_Protocol 5,
                 rollerUserDice = Some (exampleDice ! 2),
                 rollerComputerDice = Some (exampleDice ! 2)\<rparr> [] v))))"
  using roll_rounds_never_select_5 [of examplePlatform
      "[''node'', ''diceGame.js'', ''2,2,4,4,9,9'', ''6,8,1,1,8,6'', ''7,5,3,7,5,3'']"
      "exampleWorld [''0'', ''2'', ''5'', ''5'']" 4 "''My''" "exampleDice ! 2" "[]"]
  by simp

section \<open>States of the protocol object (C2)\<close>

text \<open>
  C2, as the program has it. \<open>reveal()\<close> on a fresh protocol object, before
  \<open>start()\<close>, fails: it prints the selection \<open>null\<close> and then throws the TypeError
  of reading the key that is not there, so no number and no key is revealed.
  \<open>start()\<close> called twice on the same object does not fail: for a range that the
  random generator accepts, the second call draws a fresh key and a fresh number,
  publishes a second tag and leaves them in the object. The program has no check of
  the state of a round and no error of its own for it.
\<close>

theorem reveal_before_start_and_restart:
  "Protocol_reveal (new_Protocol n) w
     = (Thrown (TypeError nullHasNoToString), [SelectionShown None], w)
   \<and> (1 \<le> n \<and> n < 2 ^ 48 \<longrightarrow>
        andThen (Protocol_start pf (new_Protocol n)) (Protocol_start pf) w =
          (Returned ((new_Protocol n)
             \<lparr>key := Some (randomKeys w (Suc (keyCalls w))),
              computerNum := Some (randomInts w (Suc (intCalls w)) mod n),
              hmac := Some (hmacSha3_256 pf (randomKeys w (Suc (keyCalls w)))
                              [of_nat (randomInts w (Suc (intCalls w)) mod n)])\<rparr>),
           [HmacShown (shownTag pf (randomInts w (intCalls w) mod n) (randomKeys w (keyCalls w))),
            HmacShown (shownTag pf (randomInts w (Suc (intCalls w)) mod n)
                         (randomKeys w (Suc (keyCalls w))))],
           w\<lparr>keyCalls := Suc (Suc (keyCalls w)), intCalls := Suc (Suc (intCalls w))\<rparr>))"
proof
  show "Protocol_reveal (new_Protocol n) w
     = (Thrown (TypeError nullHasNoToString), [SelectionShown None], w)"
    by (simp add: Protocol_reveal_eq new_Protocol_def)
qed (simp add: start_twice)

theorem reveal_before_start_and_restart_witness:
  "(1::nat) \<le> 6 \<and> (6::nat) < 2 ^ 48
   \<and> Protocol_reveal (new_Protocol 6) (exampleWorld [])
        = (Thrown (TypeError nullHasNoToString), [SelectionShown None], exampleWorld [])
   \<and> snd (andThen (Protocol_start examplePlatform (new_Protocol 6)) (Protocol_start examplePlatform)
            (exampleWorld []))
        = ([HmacShown (shownTag examplePlatform 0 (replicate 32 161)),
            HmacShown (shownTag examplePlatform 1 (replicate 32 162))],
           (exampleWorld [])\<lparr>keyCalls := 2, intCalls := 2\<rparr>)"
  using reveal_before_start_and_restart [of 6 "exampleWorld []" examplePlatform]
  by (simp add: exampleWorld_def)

text \<open>
  A second \<open>start()\<close> does not fail, then: on a protocol object of range 6 the
  second call returns, with the second key and the second number.
\<close>

theorem start_twice_counterexample:
  "fst (andThen (Protocol_start examplePlatform (new_Protocol 6)) (Protocol_start examplePlatform)
          (exampleWorld []))
   = Returned ((new_Protocol 6)
        \<lparr>key := Some (replicate 32 162), computerNum := Some 1,
         hmac := Some (hmacSha3_256 examplePlatform (replicate 32 162) [1])\<rparr>)"
  by (simp add: start_twice exampleWorld_def)

section \<open>The dice set over one game (C3)\<close>

text \<open>
  C3, as the program has it. When the dice selection returns, exactly one die is
  assigned to each party, and the two come from different positions of the list of dice
  it started with (so they differ as soon as the configured dice are pairwise
  different). The list has shrunk by exactly one element and never grows: the die taken
  first was removed, the die taken second was not, and is still in the list. For three
  dice that is 3, then 2, then 2 again.
\<close>

theorem selection_assigns_two_dice:
  assumes "DiceSelection_start pf sel dl w = (Returned sel', es, w')"
  shows "Suc (length (dice sel')) = length (dice sel)
     \<and> (\<exists>i j. i < length (dice sel) \<and> j < length (dice sel) \<and> i \<noteq> j
           \<and> userDice sel' = Some (dice sel ! i) \<and> computerDice sel' = Some (dice sel ! j)
           \<and> dice sel' = splice1 (if userFirst (protocol sel') then i else j) (dice sel)
           \<and> (if userFirst (protocol sel') then computerDice sel' else userDice sel')
                \<in> Some ` set (dice sel'))
     \<and> (distinct (dice sel) \<longrightarrow> userDice sel' \<noteq> computerDice sel')"
proof -
  from DiceSelection_start_Returned [OF assms] obtain i j where ij:
    "i < length (dice sel)" "j < length (dice sel)" "i \<noteq> j"
    "userDice sel' = Some (dice sel ! i)" "computerDice sel' = Some (dice sel ! j)"
    "dice sel' = splice1 (if userFirst (protocol sel') then i else j) (dice sel)"
    "(if userFirst (protocol sel') then computerDice sel' else userDice sel') \<in> Some ` set (dice sel')"
    by blast
  have "Suc (length (dice sel')) = length (dice sel)"
    unfolding ij(6) using ij(1,2) by (intro length_splice1) simp
  moreover have "userDice sel' \<noteq> computerDice sel'" if "distinct (dice sel)"
    using that ij(1-5) by (simp add: nth_eq_iff_index_eq)
  ultimately show ?thesis
    using ij by blast
qed

theorem selection_assigns_two_dice_witness:
  "\<exists>s. fst (DiceSelection_start examplePlatform (new_DiceSelection exampleDice (new_Protocol 2))
               (map getValues exampleDice) (exampleWorld [''0'', ''2''])) = Returned s
        \<and> Suc (length (dice s)) = length exampleDice \<and> distinct exampleDice
        \<and> userDice s \<noteq> computerDice s"
proof -
  let ?run = "DiceSelection_start examplePlatform (new_DiceSelection exampleDice (new_Protocol 2))
               (map getValues exampleDice) (exampleWorld [''0'', ''2''])"
  from example_selection [of "map getValues exampleDice"] obtain s where s: "fst ?run = Returned s"
    by blast
  then have run: "?run = (Returned s, fst (snd ?run), snd (snd ?run))"
    by (metis prod.collapse)
  have d: "distinct exampleDice"
    by (simp add: exampleDice_def)
  from selection_assigns_two_dice [OF run] d s show ?thesis
    by (simp add: new_DiceSelection_def)
qed

text \<open>
  The set does not shrink after each of the two assignments (3, 2, 1): with the three
  dice of the example, the user guessing right and taking the third die, the computer is
  given the second die and the set still holds the first and the second die.
\<close>

theorem dice_set_keeps_second_die_counterexample:
  "(case fst (DiceSelection_start examplePlatform (new_DiceSelection exampleDice (new_Protocol 2))
               (map getValues exampleDice) (exampleWorld [''0'', ''2''])) of
      Returned s \<Rightarrow> (length (dice s), userDice s, computerDice s, dice s)
    | _ \<Rightarrow> (0, None, None, []))
   = (2, Some (exampleDice ! 2), Some (exampleDice ! 1), [exampleDice ! 0, exampleDice ! 1])"
  by (simp add: example_selection)

section \<open>The win probability (C4)\<close>

text \<open>
  C4. For two dice \<open>A\<close> and \<open>B\<close>, each a non-empty list of faces,
  \<open>computeWinProbability A B\<close> is the number of pairs of a face of \<open>A\<close> and a face of
  \<open>B\<close> (faces counted by position, so with their multiplicity) where the face of \<open>A\<close>
  is greater, divided by \<open>|A| \<sqdot> |B|\<close>: a tie adds nothing to the numerator and
  counts in the denominator. For \<open>[2,2,4,4,9,9]\<close> against \<open>[1,1,6,6,8,8]\<close> it is
  \<open>5/9\<close>. The quotient is the exact one; the runtime returns the double nearest to it.
\<close>

theorem computeWinProbability_counts:
  "(A \<noteq> [] \<and> B \<noteq> [] \<longrightarrow>
      computeWinProbability A B =
        Fin (of_nat (card {(i, j). i < length A \<and> j < length B \<and> js_gt (A ! i) (B ! j)})
             / of_nat (length A * length B)))
   \<and> computeWinProbability [Fin 2, Fin 2, Fin 4, Fin 4, Fin 9, Fin 9]
                           [Fin 1, Fin 1, Fin 6, Fin 6, Fin 8, Fin 8] = Fin (5 / 9)"
proof
  show "A \<noteq> [] \<and> B \<noteq> [] \<longrightarrow>
      computeWinProbability A B =
        Fin (of_nat (card {(i, j). i < length A \<and> j < length B \<and> js_gt (A ! i) (B ! j)})
             / of_nat (length A * length B))"
    by (simp add: computeWinProbability_def js_div_def wins_count Let_def)
  show "computeWinProbability [Fin 2, Fin 2, Fin 4, Fin 4, Fin 9, Fin 9]
                           [Fin 1, Fin 1, Fin 6, Fin 6, Fin 8, Fin 8] = Fin (5 / 9)"
    by (simp add: computeWinProbability_def js_div_def)
qed

text \<open>Two faces 3 against the faces 3 and 1: two wins and two ties out of four.\<close>

theorem computeWinProbability_counts_witness:
  "[Fin 3, Fin 3] \<noteq> [] \<and> [Fin 3, Fin 1] \<noteq> []
   \<and> computeWinProbability [Fin 3, Fin 3] [Fin 3, Fin 1] = Fin (1 / 2)
   \<and> card {(i, j). i < length [Fin 3, Fin 3] \<and> j < length [Fin 3, Fin 1]
                      \<and> js_gt ([Fin 3, Fin 3] ! i) ([Fin 3, Fin 1] ! j)} = 2"
proof -
  let ?S = "{(i, j). i < length [Fin 3, Fin 3] \<and> j < length [Fin 3, Fin 1]
                      \<and> js_gt ([Fin 3, Fin 3] ! i) ([Fin 3, Fin 1] ! j)}"
  have half: "computeWinProbability [Fin 3, Fin 3] [Fin 3, Fin 1] = Fin (1 / 2)"
    by (simp add: computeWinProbability_def js_div_def)
  have "computeWinProbability [Fin 3, Fin 3] [Fin 3, Fin 1]
          = Fin (of_nat (card ?S) / of_nat (length [Fin 3, Fin 3] * length [Fin 3, Fin 1]))"
    using computeWinProbability_counts [of "[Fin 3, Fin 3]" "[Fin 3, Fin 1]"] by blast
  with half have "(of_nat (card ?S) :: rat) / 4 = 1 / 2"
    by simp
  then have "(of_nat (card ?S) :: rat) = of_nat 2"
    by simp
  then have "card ?S = 2"
    by (simp only: of_nat_eq_iff)
  with half show ?thesis
    by simp
qed

section \<open>The modular combination (C5)\<close>

text \<open>
  C5. For a secret number \<open>c\<close> and a contribution \<open>u\<close>, both in \<open>[0, 6)\<close>, the fair
  number of a roll round is \<open>(c + u) mod 6\<close>; it lies in \<open>[0, 6)\<close>, and for a fixed
  \<open>c\<close> the map from the contribution to the fair number is a bijection of \<open>[0, 6)\<close>:
  the six contributions give the six results, each once.
\<close>

theorem fairNumber_bijection:
  "c < 6 \<Longrightarrow> u < 6 \<Longrightarrow>
   fairNumber (Some c) u = (c + u) mod 6
   \<and> fairNumber (Some c) u < 6
   \<and> bij_betw (fairNumber (Some c)) {0..<6} {0..<6}
   \<and> bij_betw (\<lambda>u. (c + u) mod 6) {0..<6} {0..<6}"
proof -
  have sum: "fairNumber (Some c) = (\<lambda>u. (c + u) mod 6)"
    by (rule ext) (simp add: fairNumber_def)
  have inj: "inj_on (fairNumber (Some c)) {0..<6}"
    by (rule inj_onI) (auto dest: fairNumber_inj)
  have sub: "fairNumber (Some c) ` {0..<6} \<subseteq> {0..<6}"
    by (auto simp: fairNumber_less)
  have "card (fairNumber (Some c) ` {0..<6}) = card {0..<6::nat}"
    using inj by (rule card_image)
  with sub have "fairNumber (Some c) ` {0..<6} = {0..<6}"
    by (intro card_subset_eq) auto
  with inj have bij: "bij_betw (fairNumber (Some c)) {0..<6} {0..<6}"
    by (simp add: bij_betw_def)
  from bij have "bij_betw (\<lambda>u. (c + u) mod 6) {0..<6} {0..<6}"
    unfolding sum .
  with bij show ?thesis
    by (simp add: fairNumber_less) (simp add: fairNumber_def)
qed

text \<open>The secret 4: the contribution 5 gives 3, and the six contributions give six results.\<close>

theorem fairNumber_bijection_witness:
  "(4::nat) < 6 \<and> (5::nat) < 6 \<and> fairNumber (Some 4) 5 = (4 + 5) mod 6 \<and> fairNumber (Some 4) 5 = 3
   \<and> map (fairNumber (Some 4)) [0..<6] = [4, 5, 0, 1, 2, 3]
   \<and> bij_betw (fairNumber (Some 4)) {0..<6} {0..<6}"
  using fairNumber_bijection [of 4 5] by (simp add: fairNumber_def upt_rec)

section \<open>Malformed configurations (C6)\<close>

text \<open>
  C6. The parser throws an error whose message states the problem, and \<open>main\<close> prints
  that message and ends the process with status 1 before any round starts (nothing else
  is shown, no line is read and no randomness is drawn), in these cases: fewer than 3
  configurations, a configuration without a comma, a token for which \<open>Number\<close> answers
  NaN. An empty token is not among them: \<open>Number("")\<close> is 0 and not NaN, so the check
  \<open>parts.some(isNaN)\<close> lets it pass. A configuration that holds no number at all
  (\<open>,\<close> and \<open>,,\<close>) or one number only (\<open>1,\<close>) is taken for a die, with the face 0
  for every empty token. On the command line \<open>, 1, ,,\<close> the parser returns three dice,
  the first round starts in every run, and a whole game can be played.
\<close>

theorem empty_tokens_pass_the_check:
  "((length (drop 2 process_argv) < 3
       \<or> (\<exists>str \<in> set (drop 2 process_argv).
             length (split_comma str) < 2 \<or> (\<exists>t \<in> set (split_comma str). Number pf t = NaN)))
     \<longrightarrow> (\<exists>msg. new_DiceConfigParser pf process_argv = Inl (Error msg)
            \<and> (length (drop 2 process_argv) < 3 \<and> msg = tooFewMessage
                 \<or> (\<exists>str \<in> set (drop 2 process_argv). msg = invalidMessage str
                       \<and> (length (split_comma str) < 2
                           \<or> (\<exists>t \<in> set (split_comma str). Number pf t = NaN))))
            \<and> main pf process_argv w = (Exited 1, [ErrorShown msg], w)))
   \<and> (Number pf '''' = Fin 0 \<and> Number pf ''1'' = Fin 1
     \<longrightarrow> new_DiceConfigParser pf [node, script, '','', ''1,'', '',,'']
           = Inr \<lparr>argv = ['','', ''1,'', '',,''],
                  diceConfig = [[Fin 0, Fin 0], [Fin 1, Fin 0], [Fin 0, Fin 0, Fin 0]]\<rparr>
         \<and> (\<exists>r es v'. main pf [node, script, '','', ''1,'', '',,''] v =
               (r, Narrated firstMoveIntro
                     # HmacShown (shownTag pf (randomInts v (intCalls v) mod 2) (randomKeys v (keyCalls v)))
                     # es, v'))
         \<and> (\<exists>u es u'. main pf [node, script, '','', ''1,'', '',,''] u = (Returned (), es, u')))"
proof (intro conjI impI)
  assume bad: "length (drop 2 process_argv) < 3
       \<or> (\<exists>str \<in> set (drop 2 process_argv).
             length (split_comma str) < 2 \<or> (\<exists>t \<in> set (split_comma str). Number pf t = NaN))"
  show "\<exists>msg. new_DiceConfigParser pf process_argv = Inl (Error msg)
            \<and> (length (drop 2 process_argv) < 3 \<and> msg = tooFewMessage
                 \<or> (\<exists>str \<in> set (drop 2 process_argv). msg = invalidMessage str
                       \<and> (length (split_comma str) < 2
                           \<or> (\<exists>t \<in> set (split_comma str). Number pf t = NaN))))
            \<and> main pf process_argv w = (Exited 1, [ErrorShown msg], w)"
  proof (cases "length (drop 2 process_argv) < 3")
    case True
    then have "new_DiceConfigParser pf process_argv = Inl (Error tooFewMessage)"
      by (simp add: new_DiceConfigParser_def)
    with True main_on_error [OF this, of w] show ?thesis
      by simp
  next
    case False
    with bad obtain str where str: "str \<in> set (drop 2 process_argv)"
      "length (split_comma str) < 2 \<or> (\<exists>t \<in> set (split_comma str). Number pf t = NaN)"
      by blast
    then have "parseConfig pf str = Inl (Error (invalidMessage str))"
      by (simp add: parseConfig_Inl)
    from map_throwing_fails [of str "drop 2 process_argv" "parseConfig pf", OF str(1) this] obtain e
      where e: "map_throwing (parseConfig pf) (drop 2 process_argv) = Inl e"
      by blast
    from map_throwing_Inl [OF e] obtain wrong where wrong: "wrong \<in> set (drop 2 process_argv)"
      "parseConfig pf wrong = Inl e"
      by blast
    from wrong(2) have msg: "e = Error (invalidMessage wrong)"
      and why: "length (split_comma wrong) < 2 \<or> (\<exists>t \<in> set (split_comma wrong). Number pf t = NaN)"
      by (simp_all add: parseConfig_Inl)
    from False e msg have fails: "new_DiceConfigParser pf process_argv = Inl (Error (invalidMessage wrong))"
      by (simp add: new_DiceConfigParser_def)
    from main_on_error [OF fails, of w] fails wrong(1) why show ?thesis
      by auto
  qed
next
  let ?av = "[node, script, '','', ''1,'', '',,'']"
  let ?parser = "\<lparr>argv = ['','', ''1,'', '',,''],
                  diceConfig = [[Fin 0, Fin 0], [Fin 1, Fin 0], [Fin 0, Fin 0, Fin 0]]\<rparr>"
  assume numbers: "Number pf '''' = Fin 0 \<and> Number pf ''1'' = Fin 1"
  then show accepted: "new_DiceConfigParser pf ?av = Inr ?parser"
    by (subst new_DiceConfigParser_accepts) simp_all
  from main_starts_round [OF accepted]
  show "\<exists>r es v'. main pf ?av v =
               (r, Narrated firstMoveIntro
                     # HmacShown (shownTag pf (randomInts v (intCalls v) mod 2) (randomKeys v (keyCalls v)))
                     # es, v')" .
  from main_rolls_past_the_end [OF accepted, of 0]
  show "\<exists>u es u'. main pf ?av u = (Returned (), es, u')"
    by auto
qed

text \<open>
  Two configurations only, which are refused; and the command line \<open>, 1, ,,\<close>, which is
  accepted on a platform that reads the empty string as 0, and on which a game is played
  to its end.
\<close>

theorem empty_tokens_pass_the_check_witness:
  "main examplePlatform [''node'', ''diceGame.js'', ''2,2,4,4,9,9'', ''6,8,1,1,8,6''] (exampleWorld [''0''])
     = (Exited 1, [ErrorShown tooFewMessage], exampleWorld [''0''])
   \<and> new_DiceConfigParser examplePlatform [''node'', ''diceGame.js'', '','', ''1,'', '',,'']
       = Inr \<lparr>argv = ['','', ''1,'', '',,''],
              diceConfig = [[Fin 0, Fin 0], [Fin 1, Fin 0], [Fin 0, Fin 0, Fin 0]]\<rparr>
   \<and> (\<exists>u es u'. main examplePlatform [''node'', ''diceGame.js'', '','', ''1,'', '',,''] u
                    = (Returned (), es, u'))"
proof -
  let ?few = "[''node'', ''diceGame.js'', ''2,2,4,4,9,9'', ''6,8,1,1,8,6'']"
  note check = empty_tokens_pass_the_check [of ?few examplePlatform "exampleWorld [''0'']"
      "''node''" "''diceGame.js''"]
  have few: "length (drop 2 ?few) < 3" by simp
  then have "new_DiceConfigParser examplePlatform ?few = Inl (Error tooFewMessage)"
    by (simp add: new_DiceConfigParser_def)
  with check [THEN conjunct1] few
  have one: "main examplePlatform ?few (exampleWorld [''0''])
     = (Exited 1, [ErrorShown tooFewMessage], exampleWorld [''0''])"
    by auto
  have "Number examplePlatform '''' = Fin 0 \<and> Number examplePlatform ''1'' = Fin 1"
    by (simp add: examplePlatform_def decimalLiteral_def unsignedDecimal_def trim_def
        isWhiteSpace_def isDigit_def decimalNumber_def digitValue_def)
  with check [THEN conjunct2] one show ?thesis
    by blast
qed

section \<open>The commitment (C7)\<close>

text \<open>
  C7. For every secret number and key, \<open>verify\<close> accepts the tag that \<open>calcHmac\<close>
  computes from them: the tag is the keyed hash of the one byte that encodes the number,
  and \<open>verify\<close> recomputes it and compares. So it accepts what a protocol object holds
  after \<open>start()\<close>: its tag against its number and its key, which are those that
  \<open>reveal()\<close> shows. (The tag is held as the digest gives it, in lower case; it is
  printed in upper case.)
\<close>

theorem verify_accepts_commitment:
  "calcHmac pf (Some secretNumber) (Some k) = Inr (hmacSha3_256 pf k [of_nat secretNumber])
   \<and> verify pf secretNumber k (hmacSha3_256 pf k [of_nat secretNumber])
   \<and> (Protocol_start pf p w = (Returned p', es, w') \<longrightarrow>
        (\<exists>c k' h. computerNum p' = Some c \<and> key p' = Some k' \<and> hmac p' = Some h
                   \<and> verify pf c k' h))"
proof (intro conjI impI)
  show "calcHmac pf (Some secretNumber) (Some k) = Inr (hmacSha3_256 pf k [of_nat secretNumber])"
    by (simp add: calcHmac_def)
  show "verify pf secretNumber k (hmacSha3_256 pf k [of_nat secretNumber])"
    by (simp add: verify_def calcHmac_def)
  assume "Protocol_start pf p w = (Returned p', es, w')"
  from started_protocol [OF this] obtain c k' where
    "computerNum p' = Some c" "key p' = Some k'" "hmac p' = Some (hmacSha3_256 pf k' [of_nat c])"
    by blast
  moreover have "verify pf c k' (hmacSha3_256 pf k' [of_nat c])"
    by (simp add: verify_def calcHmac_def)
  ultimately show "\<exists>c k' h. computerNum p' = Some c \<and> key p' = Some k' \<and> hmac p' = Some h
                   \<and> verify pf c k' h"
    by blast
qed

theorem verify_accepts_commitment_witness:
  "verify examplePlatform 3 (replicate 32 161)
     (hmacSha3_256 examplePlatform (replicate 32 161) [3])
   \<and> (\<exists>p' c k' h. fst (Protocol_start examplePlatform (new_Protocol 6) (exampleWorld [])) = Returned p'
         \<and> computerNum p' = Some c \<and> key p' = Some k' \<and> hmac p' = Some h
         \<and> verify examplePlatform c k' h)"
proof -
  let ?run = "Protocol_start examplePlatform (new_Protocol 6) (exampleWorld [])"
  have "1 \<le> range_of (new_Protocol 6)" "range_of (new_Protocol 6) < 2 ^ 48"
    by (simp_all add: new_Protocol_def)
  from Protocol_start_ok [OF this, of examplePlatform "exampleWorld []"]
  obtain p' where p': "fst ?run = Returned p'"
    by simp
  then have "?run = (Returned p', fst (snd ?run), snd (snd ?run))"
    by (metis prod.collapse)
  with verify_accepts_commitment [of examplePlatform 3 "replicate 32 161" "new_Protocol 6"
      "exampleWorld []" p' "fst (snd ?run)" "snd (snd ?run)"] p'
  show ?thesis
    by auto
qed

section \<open>The order of disclosure (C8)\<close>

text \<open>
  C8. In every protocol round (a roll round, and the round that decides who moves first)
  the tag is shown before any line is read from the user, and the secret number and the
  key are shown only after the user's answer has been accepted.

  The whole trace of a round is, in this order: the introduction, the tag, the heading of
  the menu, what the loop of the menu shows while it reads lines (which is a function of
  the lines typed and of the dice list, and of nothing else), and, only when that loop has
  returned an answer, the secret number, then the key, then in a roll round the fair
  number formed from the secret number and that answer, and the roll. A run that ends
  earlier shows a prefix of this: the introduction alone when the round could not start,
  or everything up to the last line read when the user left or no line came. So nothing
  that is shown before the answer is accepted depends on the secret number or on the key,
  except the tag. The answer is the last line the loop read. In the first-move round
  what follows the key is the choice of the dice, which shows no tag, number or key.

  Projected on the tag, the lines read, the number and the key, a run discloses nothing
  at all, or the tag followed by the lines read, or the tag, the lines read, the number
  and the key; a round that returns has disclosed all of it. The number and the key shown
  are the ones the tag was computed from.
\<close>

theorem rounds_disclose_in_order:
  assumes roll: "DiceRoller_start pf roller dl w = (r, es, w')"
      and pick: "DiceSelection_start pf sel dl v = (r', es', v')"
  shows "(let c = randomInts w (intCalls w) mod range_of (rollerProtocol roller);
              k = randomKeys w (keyCalls w);
              menu = readInput_loop ''Your selection: '' (map toString [0..<6] @ [''X'', ''?'']) dl (stdin w);
              commit = Narrated (rollIntro (whose roller)) # HmacShown (shownTag pf c k)
                         # MenuShown ''Add your number modulo 6.'' 6 # fst (snd menu)
          in es = [Narrated (rollIntro (whose roller))] \<and> (\<forall>x. r \<noteq> Returned x)
             \<or> es = commit \<and> (\<forall>u. fst menu \<noteq> Returned u) \<and> (\<forall>x. r \<noteq> Returned x)
             \<or> (\<exists>u line tail. fst menu = Returned u
                   \<and> fst (snd menu) \<noteq> [] \<and> last (fst (snd menu)) = Question ''Your selection: '' line
                   \<and> u = decimalNumber (trim line)
                   \<and> es = commit @ [SelectionShown (Some c), KeyShown k,
                                    FairShown (Some c) u (fairNumber (Some c) u)] @ tail
                   \<and> (tail = [] \<and> (\<forall>x. r \<noteq> Returned x)
                       \<or> (\<exists>x. tail = [RollShown (whose roller) x] \<and> r = Returned x))))
       \<and> (let c = randomInts v (intCalls v) mod range_of (protocol sel);
              k = randomKeys v (keyCalls v);
              menu = readInput_loop ''Your selection: '' (map toString [0..<2] @ [''X'', ''?'']) dl (stdin v);
              commit = Narrated firstMoveIntro # HmacShown (shownTag pf c k)
                         # MenuShown ''Try to guess my selection.'' 2 # fst (snd menu)
          in es' = [Narrated firstMoveIntro] \<and> (\<forall>s. r' \<noteq> Returned s)
             \<or> es' = commit \<and> (\<forall>g. fst menu \<noteq> Returned g) \<and> (\<forall>s. r' \<noteq> Returned s)
             \<or> (\<exists>g line tail used'. fst menu = Returned g
                   \<and> fst (snd menu) \<noteq> [] \<and> last (fst (snd menu)) = Question ''Your selection: '' line
                   \<and> g = decimalNumber (trim line)
                   \<and> es' = commit @ [SelectionShown (Some c), KeyShown k] @ tail
                   \<and> disclosure tail = map (Question ''Your selection: '') used'))
       \<and> (let c = randomInts w (intCalls w) mod range_of (rollerProtocol roller);
              k = randomKeys w (keyCalls w)
          in \<exists>used. stdin w = used @ stdin w'
               \<and> (disclosure es = []
                    \<or> disclosure es = HmacShown (shownTag pf c k) # map (Question ''Your selection: '') used
                    \<or> used \<noteq> [] \<and> disclosure es = roundDisclosure pf c k used
                        \<and> FairShown (Some c) (decimalNumber (trim (last used)))
                             (fairNumber (Some c) (decimalNumber (trim (last used)))) \<in> set es)
               \<and> ((\<exists>x. r = Returned x) \<longrightarrow> used \<noteq> [] \<and> disclosure es = roundDisclosure pf c k used))
       \<and> (let c = randomInts v (intCalls v) mod range_of (protocol sel);
              k = randomKeys v (keyCalls v)
          in \<exists>used used'. stdin v = used @ used' @ stdin v'
               \<and> (disclosure es' = []
                    \<or> disclosure es' = HmacShown (shownTag pf c k) # map (Question ''Your selection: '') used
                    \<or> used \<noteq> [] \<and> disclosure es' =
                          roundDisclosure pf c k used @ map (Question ''Your selection: '') used')
               \<and> ((\<exists>s. r' = Returned s) \<longrightarrow>
                     used \<noteq> [] \<and> disclosure es' =
                          roundDisclosure pf c k used @ map (Question ''Your selection: '') used'))"
proof (intro conjI)
  let ?menu = "readInput_loop ''Your selection: '' (map toString [0..<6] @ [''X'', ''?'']) dl (stdin w)"
  have "\<exists>line. fst (snd ?menu) \<noteq> [] \<and> last (fst (snd ?menu)) = Question ''Your selection: '' line
           \<and> u = decimalNumber (trim line)"
    if "fst ?menu = Returned u" for u
  proof -
    from that have "?menu = (Returned u, fst (snd ?menu), snd (snd ?menu))"
      by (metis prod.collapse)
    from readInput_loop_accepted [OF this] show ?thesis
      by blast
  qed
  with DiceRoller_start_trace [OF roll]
  show "let c = randomInts w (intCalls w) mod range_of (rollerProtocol roller);
              k = randomKeys w (keyCalls w);
              menu = readInput_loop ''Your selection: '' (map toString [0..<6] @ [''X'', ''?'']) dl (stdin w);
              commit = Narrated (rollIntro (whose roller)) # HmacShown (shownTag pf c k)
                         # MenuShown ''Add your number modulo 6.'' 6 # fst (snd menu)
          in es = [Narrated (rollIntro (whose roller))] \<and> (\<forall>x. r \<noteq> Returned x)
             \<or> es = commit \<and> (\<forall>u. fst menu \<noteq> Returned u) \<and> (\<forall>x. r \<noteq> Returned x)
             \<or> (\<exists>u line tail. fst menu = Returned u
                   \<and> fst (snd menu) \<noteq> [] \<and> last (fst (snd menu)) = Question ''Your selection: '' line
                   \<and> u = decimalNumber (trim line)
                   \<and> es = commit @ [SelectionShown (Some c), KeyShown k,
                                    FairShown (Some c) u (fairNumber (Some c) u)] @ tail
                   \<and> (tail = [] \<and> (\<forall>x. r \<noteq> Returned x)
                       \<or> (\<exists>x. tail = [RollShown (whose roller) x] \<and> r = Returned x)))"
    unfolding Let_def by (elim disjE exE conjE) blast+
next
  let ?menu = "readInput_loop ''Your selection: '' (map toString [0..<2] @ [''X'', ''?'']) dl (stdin v)"
  have "\<exists>line. fst (snd ?menu) \<noteq> [] \<and> last (fst (snd ?menu)) = Question ''Your selection: '' line
           \<and> g = decimalNumber (trim line)"
    if "fst ?menu = Returned g" for g
  proof -
    from that have "?menu = (Returned g, fst (snd ?menu), snd (snd ?menu))"
      by (metis prod.collapse)
    from readInput_loop_accepted [OF this] show ?thesis
      by blast
  qed
  with DiceSelection_start_trace [OF pick]
  show "let c = randomInts v (intCalls v) mod range_of (protocol sel);
              k = randomKeys v (keyCalls v);
              menu = readInput_loop ''Your selection: '' (map toString [0..<2] @ [''X'', ''?'']) dl (stdin v);
              commit = Narrated firstMoveIntro # HmacShown (shownTag pf c k)
                         # MenuShown ''Try to guess my selection.'' 2 # fst (snd menu)
          in es' = [Narrated firstMoveIntro] \<and> (\<forall>s. r' \<noteq> Returned s)
             \<or> es' = commit \<and> (\<forall>g. fst menu \<noteq> Returned g) \<and> (\<forall>s. r' \<noteq> Returned s)
             \<or> (\<exists>g line tail used'. fst menu = Returned g
                   \<and> fst (snd menu) \<noteq> [] \<and> last (fst (snd menu)) = Question ''Your selection: '' line
                   \<and> g = decimalNumber (trim line)
                   \<and> es' = commit @ [SelectionShown (Some c), KeyShown k] @ tail
                   \<and> disclosure tail = map (Question ''Your selection: '') used')"
    unfolding Let_def by (elim disjE exE conjE) blast+
next
  from DiceRoller_start_disclosure [OF roll]
  show "let c = randomInts w (intCalls w) mod range_of (rollerProtocol roller);
              k = randomKeys w (keyCalls w)
          in \<exists>used. stdin w = used @ stdin w'
               \<and> (disclosure es = []
                    \<or> disclosure es = HmacShown (shownTag pf c k) # map (Question ''Your selection: '') used
                    \<or> used \<noteq> [] \<and> disclosure es = roundDisclosure pf c k used
                        \<and> FairShown (Some c) (decimalNumber (trim (last used)))
                             (fairNumber (Some c) (decimalNumber (trim (last used)))) \<in> set es)
               \<and> ((\<exists>x. r = Returned x) \<longrightarrow> used \<noteq> [] \<and> disclosure es = roundDisclosure pf c k used)"
    unfolding Let_def by (elim exE conjE disjE) blast+
next
  from DiceSelection_start_disclosure [OF pick]
  show "let c = randomInts v (intCalls v) mod range_of (protocol sel);
              k = randomKeys v (keyCalls v)
          in \<exists>used used'. stdin v = used @ used' @ stdin v'
               \<and> (disclosure es' = []
                    \<or> disclosure es' = HmacShown (shownTag pf c k) # map (Question ''Your selection: '') used
                    \<or> used \<noteq> [] \<and> disclosure es' =
                          roundDisclosure pf c k used @ map (Question ''Your selection: '') used')
               \<and> ((\<exists>s. r' = Returned s) \<longrightarrow>
                     used \<noteq> [] \<and> disclosure es' =
                          roundDisclosure pf c k used @ map (Question ''Your selection: '') used')"
    unfolding Let_def by (elim exE conjE disjE) blast+
qed

text \<open>
  A roll round and a first-move round that return: each shows its tag, then the menu and
  the lines read, then the number and the key.
\<close>

theorem rounds_disclose_in_order_witness:
  "(\<exists>u tail.
      fst (snd (DiceRoller_start examplePlatform
          \<lparr>whose = ''My'', rollerProtocol = new_Protocol 5,
           rollerUserDice = Some (exampleDice ! 2), rollerComputerDice = Some (exampleDice ! 1)\<rparr>
          (map getValues exampleDice) (exampleWorld [''5''])))
        = Narrated (rollIntro ''My'') # HmacShown (shownTag examplePlatform 0 (replicate 32 161))
            # MenuShown ''Add your number modulo 6.'' 6
            # fst (snd (readInput_loop ''Your selection: '' (map toString [0..<6] @ [''X'', ''?''])
                         (map getValues exampleDice) [''5'']))
            @ [SelectionShown (Some 0), KeyShown (replicate 32 161),
               FairShown (Some 0) u (fairNumber (Some 0) u)] @ tail)
   \<and> (\<exists>tail.
      fst (snd (DiceSelection_start examplePlatform
            (new_DiceSelection exampleDice (new_Protocol 2))
            (map getValues exampleDice) (exampleWorld [''0'', ''2''])))
        = Narrated firstMoveIntro # HmacShown (shownTag examplePlatform 0 (replicate 32 161))
            # MenuShown ''Try to guess my selection.'' 2
            # fst (snd (readInput_loop ''Your selection: '' (map toString [0..<2] @ [''X'', ''?''])
                         (map getValues exampleDice) [''0'', ''2'']))
            @ [SelectionShown (Some 0), KeyShown (replicate 32 161)] @ tail)
   \<and> (\<exists>used. used \<noteq> []
      \<and> disclosure (fst (snd (DiceRoller_start examplePlatform
          \<lparr>whose = ''My'', rollerProtocol = new_Protocol 5,
           rollerUserDice = Some (exampleDice ! 2), rollerComputerDice = Some (exampleDice ! 1)\<rparr>
          (map getValues exampleDice) (exampleWorld [''5'']))))
        = roundDisclosure examplePlatform 0 (replicate 32 161) used)
   \<and> (\<exists>used used'. used \<noteq> []
      \<and> disclosure (fst (snd (DiceSelection_start examplePlatform
            (new_DiceSelection exampleDice (new_Protocol 2))
            (map getValues exampleDice) (exampleWorld [''0'', ''2'']))))
        = roundDisclosure examplePlatform 0 (replicate 32 161) used
            @ map (Question ''Your selection: '') used')"
proof -
  let ?roll = "DiceRoller_start examplePlatform
          \<lparr>whose = ''My'', rollerProtocol = new_Protocol 5,
           rollerUserDice = Some (exampleDice ! 2), rollerComputerDice = Some (exampleDice ! 1)\<rparr>
          (map getValues exampleDice) (exampleWorld [''5''])"
  let ?pick = "DiceSelection_start examplePlatform
            (new_DiceSelection exampleDice (new_Protocol 2))
            (map getValues exampleDice) (exampleWorld [''0'', ''2''])"
  have roll: "?roll = (fst ?roll, fst (snd ?roll), snd (snd ?roll))"
    and pick: "?pick = (fst ?pick, fst (snd ?pick), snd (snd ?pick))"
    by simp_all
  have returned: "\<exists>x. fst ?roll = Returned x" "\<exists>s. fst ?pick = Returned s"
    by (rule exI, rule example_roll) (rule exI, rule example_selection)
  have world: "stdin (exampleWorld ls) = ls" "intCalls (exampleWorld ls) = 0"
    "keyCalls (exampleWorld ls) = 0" "randomInts (exampleWorld ls) 0 = 0"
    "randomKeys (exampleWorld ls) 0 = replicate 32 161" for ls
    by (simp_all add: exampleWorld_def)
  note order = rounds_disclose_in_order [OF roll pick, unfolded Let_def world, simplified]
  from order [THEN conjunct1] returned(1)
  have one: "\<exists>u tail. fst (snd ?roll)
        = Narrated (rollIntro ''My'') # HmacShown (shownTag examplePlatform 0 (replicate 32 161))
            # MenuShown ''Add your number modulo 6.'' 6
            # fst (snd (readInput_loop ''Your selection: '' (map toString [0..<6] @ [''X'', ''?''])
                         (map getValues exampleDice) [''5'']))
            @ [SelectionShown (Some 0), KeyShown (replicate 32 161),
               FairShown (Some 0) u (fairNumber (Some 0) u)] @ tail"
    by (auto simp: new_Protocol_def)
  from order [THEN conjunct2, THEN conjunct1] returned(2)
  have two: "\<exists>tail. fst (snd ?pick)
        = Narrated firstMoveIntro # HmacShown (shownTag examplePlatform 0 (replicate 32 161))
            # MenuShown ''Try to guess my selection.'' 2
            # fst (snd (readInput_loop ''Your selection: '' (map toString [0..<2] @ [''X'', ''?''])
                         (map getValues exampleDice) [''0'', ''2'']))
            @ [SelectionShown (Some 0), KeyShown (replicate 32 161)] @ tail"
    by (auto simp: new_Protocol_def new_DiceSelection_def)
  from order [THEN conjunct2, THEN conjunct2, THEN conjunct1] returned(1)
  have three: "\<exists>used. used \<noteq> []
      \<and> disclosure (fst (snd ?roll)) = roundDisclosure examplePlatform 0 (replicate 32 161) used"
    by (auto simp: new_Protocol_def)
  from order [THEN conjunct2, THEN conjunct2, THEN conjunct2] returned(2)
  have four: "\<exists>used used'. used \<noteq> []
      \<and> disclosure (fst (snd ?pick)) = roundDisclosure examplePlatform 0 (replicate 32 161) used
            @ map (Question ''Your selection: '') used'"
    by (auto simp: new_Protocol_def new_DiceSelection_def)
  from one two three four show ?thesis
    by blast
qed

section \<open>Rolling past the last face (C9)\<close>

text \<open>
  C9. \<open>roll(index)\<close> reads the face at \<open>index\<close> without a check: it yields a face
  exactly when \<open>0 \<le> index < numberOfFaces\<close> and \<open>undefined\<close> otherwise. The
  parser accepts a die as soon as it has 2 faces, and a roll round indexes with a fair
  number that ranges over \<open>[0, 6)\<close>: for every die of an accepted configuration that
  has fewer than 6 faces (it has at least 2) there is a game, played to its end, in
  which the user holds that die and the roll of it is \<open>undefined\<close>. (The list of dice
  is taken to be one the random generator can draw from, of at most \<open>2^48\<close> entries.)
\<close>

theorem roll_past_the_end:
  "roll d i = (if 0 \<le> i \<and> i < int (numberOfFaces d) then Some (getValues d ! nat i) else None)
   \<and> (new_DiceConfigParser pf process_argv = Inr parser \<and> d \<in> set (getDiceConfig parser)
        \<and> numberOfFaces d < 6 \<and> length (getDiceConfig parser) \<le> 2 ^ 48
      \<longrightarrow> 2 \<le> numberOfFaces d
          \<and> (\<exists>w es w'. main pf process_argv w = (Returned (), es, w')
                \<and> RollShown ''Your'' None \<in> set es))"
proof
  show "roll d i = (if 0 \<le> i \<and> i < int (numberOfFaces d) then Some (getValues d ! nat i) else None)"
    by (simp add: roll_def element_def numberOfFaces_def)
  show "new_DiceConfigParser pf process_argv = Inr parser \<and> d \<in> set (getDiceConfig parser)
        \<and> numberOfFaces d < 6 \<and> length (getDiceConfig parser) \<le> 2 ^ 48
      \<longrightarrow> 2 \<le> numberOfFaces d
          \<and> (\<exists>w es w'. main pf process_argv w = (Returned (), es, w')
                \<and> RollShown ''Your'' None \<in> set es)"
  proof (intro impI, elim conjE)
    assume parser: "new_DiceConfigParser pf process_argv = Inr parser"
      and d: "d \<in> set (getDiceConfig parser)" "numberOfFaces d < 6"
      and many: "length (getDiceConfig parser) \<le> 2 ^ 48"
    from d(1) obtain k where k: "k < length (getDiceConfig parser)" "getDiceConfig parser ! k = d"
      by (auto simp: in_set_conv_nth)
    then have "k < length (diceConfig parser)" "diceConfig parser ! k = getValues d"
      by (auto simp: getDiceConfig_def)
    with d(2) many have "\<exists>w es w'. main pf process_argv w = (Returned (), es, w')
                \<and> RollShown ''Your'' None \<in> set es"
      by (intro main_rolls_past_the_end [OF parser, of k]) (simp_all add: numberOfFaces_def getDiceConfig_def)
    with accepted_die_has_two_faces [OF parser d(1)]
    show "2 \<le> numberOfFaces d
          \<and> (\<exists>w es w'. main pf process_argv w = (Returned (), es, w')
                \<and> RollShown ''Your'' None \<in> set es)"
      by simp
  qed
qed

text \<open>Three dice with the two faces 1.5 and -2.5: the second face is at index 1, there is
  none at index 5, and some game rolls the user's die to \<open>undefined\<close>.\<close>

theorem roll_past_the_end_witness:
  "roll \<lparr>getValues = [Fin (3 / 2), Fin (- 5 / 2)]\<rparr> 1 = Some (Fin (- 5 / 2))
   \<and> roll \<lparr>getValues = [Fin (3 / 2), Fin (- 5 / 2)]\<rparr> 5 = None
   \<and> numberOfFaces \<lparr>getValues = [Fin (3 / 2), Fin (- 5 / 2)]\<rparr> = 2
   \<and> (\<exists>w es w'. main examplePlatform
                    [''node'', ''diceGame.js'', ''1.5,-2.5'', ''1.5,-2.5'', ''1.5,-2.5''] w
                  = (Returned (), es, w')
          \<and> RollShown ''Your'' None \<in> set es)"
proof -
  let ?d = "\<lparr>getValues = [Fin (3 / 2), Fin (- 5 / 2)]\<rparr>"
  let ?av = "[''node'', ''diceGame.js'', ''1.5,-2.5'', ''1.5,-2.5'', ''1.5,-2.5'']"
  let ?parser = "\<lparr>argv = [''1.5,-2.5'', ''1.5,-2.5'', ''1.5,-2.5''],
            diceConfig = [[Fin (3 / 2), Fin (- 5 / 2)], [Fin (3 / 2), Fin (- 5 / 2)],
                          [Fin (3 / 2), Fin (- 5 / 2)]]\<rparr>"
  have accepted: "new_DiceConfigParser examplePlatform ?av = Inr ?parser"
    by (rule example_fractions_accepted)
  have mine: "?d \<in> set (getDiceConfig ?parser)" "numberOfFaces ?d < 6"
    "length (getDiceConfig ?parser) \<le> 2 ^ 48"
    by (simp_all add: getDiceConfig_def numberOfFaces_def)
  from roll_past_the_end [of ?d 1 examplePlatform ?av ?parser]
    roll_past_the_end [of ?d 5 examplePlatform ?av ?parser] accepted mine
  show ?thesis
    by (simp add: numberOfFaces_def)
qed

section \<open>Faces that are not integers (C10)\<close>

text \<open>
  C10. The parser accepts every token that \<open>Number\<close> converts to something else than
  NaN: with at least 3 configurations of at least 2 such tokens each, construction
  succeeds and the faces of each die are the converted tokens in their order. In
  particular three configurations \<open>1.5,-2.5\<close> give three dice with the faces 1.5 and
  -2.5, on every platform whose \<open>Number\<close> reads these two tokens as it should.
\<close>

theorem parser_accepts_any_numbers:
  "(3 \<le> length (drop 2 process_argv)
     \<and> (\<forall>str \<in> set (drop 2 process_argv).
           2 \<le> length (split_comma str) \<and> (\<forall>t \<in> set (split_comma str). Number pf t \<noteq> NaN))
     \<longrightarrow> (\<exists>parser. new_DiceConfigParser pf process_argv = Inr parser
            \<and> getDiceConfig parser =
                map (\<lambda>str. \<lparr>getValues = map (Number pf) (split_comma str)\<rparr>) (drop 2 process_argv)))
   \<and> (Number pf ''1.5'' = Fin (3 / 2) \<and> Number pf ''-2.5'' = Fin (- 5 / 2)
     \<longrightarrow> (\<exists>parser. new_DiceConfigParser pf [node, script, ''1.5,-2.5'', ''1.5,-2.5'', ''1.5,-2.5''] = Inr parser
            \<and> getDiceConfig parser = replicate 3 \<lparr>getValues = [Fin (3 / 2), Fin (- 5 / 2)]\<rparr>))"
proof -
  have general: "\<exists>parser. new_DiceConfigParser pf av = Inr parser
            \<and> getDiceConfig parser = map (\<lambda>str. \<lparr>getValues = map (Number pf) (split_comma str)\<rparr>) (drop 2 av)"
    if "3 \<le> length (drop 2 av)"
      and "\<forall>str \<in> set (drop 2 av).
           2 \<le> length (split_comma str) \<and> (\<forall>t \<in> set (split_comma str). Number pf t \<noteq> NaN)"
    for av
    using new_DiceConfigParser_accepts [OF that] by (simp add: getDiceConfig_def o_def)
  have split: "split_comma ''1.5,-2.5'' = [''1.5'', ''-2.5'']"
    by simp
  have "\<exists>parser. new_DiceConfigParser pf [node, script, ''1.5,-2.5'', ''1.5,-2.5'', ''1.5,-2.5''] = Inr parser
            \<and> getDiceConfig parser = replicate 3 \<lparr>getValues = [Fin (3 / 2), Fin (- 5 / 2)]\<rparr>"
    if "Number pf ''1.5'' = Fin (3 / 2)" "Number pf ''-2.5'' = Fin (- 5 / 2)"
    using general [of "[node, script, ''1.5,-2.5'', ''1.5,-2.5'', ''1.5,-2.5'']"] that
    by (simp add: split numeral_3_eq_3)
  with general show ?thesis
    by blast
qed

theorem parser_accepts_any_numbers_witness:
  "\<exists>parser. new_DiceConfigParser examplePlatform
               [''node'', ''diceGame.js'', ''1.5,-2.5'', ''1.5,-2.5'', ''1.5,-2.5''] = Inr parser
     \<and> getDiceConfig parser = replicate 3 \<lparr>getValues = [Fin (3 / 2), Fin (- 5 / 2)]\<rparr>"
  using parser_accepts_any_numbers [of "[]" examplePlatform "''node''" "''diceGame.js''"]
    examplePlatform_numbers
  by blast

end
